theory Spec2Isabelle
  imports Main "HOL-Library.Word"
begin

section \<open>JavaScript values\<close>

text \<open>
  A JavaScript string is a sequence of UTF-16 code units, and \<^verbatim>\<open>s.length\<close> counts
  them. An object that the code only passes on or compares by identity is
  represented by its reference.
\<close>

type_synonym js_string = "16 word list"

type_synonym ref = nat

datatype error = TypeError

text \<open>
  \<^verbatim>\<open>Array.prototype.reduce(callback, initialValue)\<close>: the callback receives the
  accumulator, the element and the element's index. An exception thrown by the
  callback ends the loop.
\<close>

fun reduce_from :: "('b \<Rightarrow> 'a \<Rightarrow> nat \<Rightarrow> error + 'b) \<Rightarrow> 'b \<Rightarrow> nat \<Rightarrow> 'a list \<Rightarrow> error + 'b" where
  "reduce_from f acc index [] = Inr acc"
| "reduce_from f acc index (x # xs) =
     (case f acc x index of
        Inl e \<Rightarrow> Inl e
      | Inr acc' \<Rightarrow> reduce_from f acc' (Suc index) xs)"

definition reduce :: "('b \<Rightarrow> 'a \<Rightarrow> nat \<Rightarrow> error + 'b) \<Rightarrow> 'b \<Rightarrow> 'a list \<Rightarrow> error + 'b" where
  "reduce f initialValue xs = reduce_from f initialValue 0 xs"

section \<open>DraftPasteProcessor\<close>

text \<open>
  The block record. \<^verbatim>\<open>ContentBlock\<close> and \<^verbatim>\<open>ContentBlockNode\<close> are declared
  outside the files at hand; the record holds the fields that
  \<^verbatim>\<open>processText\<close> writes. The field \<^verbatim>\<open>text\<close> is named \<open>text_field\<close>. A sibling
  field that was never given a value is \<open>None\<close> (\<^verbatim>\<open>null\<close>); without tree data
  support the record is a \<^verbatim>\<open>ContentBlock\<close>, whose sibling fields stay \<open>None\<close>.
\<close>

record 'c ContentBlockRecord =
  key :: js_string
  type :: js_string
  text_field :: js_string
  characterList :: "'c list"
  prevSibling :: "js_string option"
  nextSibling :: "js_string option"

text \<open>
  \<^verbatim>\<open>generateRandomKey()\<close> takes no argument and is declared outside the files at
  hand. What it returns is determined by state outside \<^verbatim>\<open>processText\<close>: the
  model takes the sequence \<open>rand\<close> of the keys it returns, \<open>rand i\<close> at its
  \<open>i\<close>-th call, and threads the number of calls made so far.
\<close>

definition generateRandomKey :: "(nat \<Rightarrow> js_string) \<Rightarrow> nat \<Rightarrow> js_string \<times> nat" where
  "generateRandomKey rand calls = (rand calls, Suc calls)"

text \<open>
  The callback that \<^verbatim>\<open>processText\<close> gives to \<^verbatim>\<open>reduce\<close>. The feature flag
  \<^verbatim>\<open>experimentalTreeDataSupport\<close> and the function \<^verbatim>\<open>sanitizeDraftText\<close> are
  parameters. \<^verbatim>\<open>List(Repeat(character, n))\<close> is the list of \<open>n\<close> copies of
  \<open>character\<close>. Reading \<^verbatim>\<open>acc[prevSiblingIndex]\<close> out of range gives
  \<^verbatim>\<open>undefined\<close>, on which \<^verbatim>\<open>.merge\<close> throws.
\<close>

definition processText_callback ::
  "bool \<Rightarrow> (nat \<Rightarrow> js_string) \<Rightarrow> (js_string \<Rightarrow> js_string) \<Rightarrow> 'c \<Rightarrow> js_string \<Rightarrow>
   nat \<times> 'c ContentBlockRecord list \<Rightarrow> js_string \<Rightarrow> nat \<Rightarrow>
   error + nat \<times> 'c ContentBlockRecord list" where
  "processText_callback experimentalTreeDataSupport rand sanitizeDraftText character ty st textLine0 index =
     (case st of (calls, acc) \<Rightarrow>
        let textLine = sanitizeDraftText textLine0;
            (k, calls') = generateRandomKey rand calls;
            blockNodeConfig =
              \<lparr>key = k, type = ty, text_field = textLine,
               characterList = replicate (length textLine) character,
               prevSibling = None, nextSibling = None\<rparr>
        in if experimentalTreeDataSupport \<and> index \<noteq> 0 then
             let prevSiblingIndex = index - 1
             in if prevSiblingIndex < length acc then
                  let previousBlock = (acc ! prevSiblingIndex)\<lparr>nextSibling := Some k\<rparr>;
                      acc1 = acc[prevSiblingIndex := previousBlock];
                      blockNodeConfig' = blockNodeConfig\<lparr>prevSibling := Some (key previousBlock)\<rparr>
                  in Inr (calls', acc1 @ [blockNodeConfig'])
                else Inl TypeError
           else Inr (calls', acc @ [blockNodeConfig]))"

text \<open>
  \<^verbatim>\<open>processText(textBlocks, character, type)\<close>, started when \<^verbatim>\<open>generateRandomKey\<close>
  has been called \<open>calls\<close> times. The result is the array of blocks (or the
  exception) and the number of calls afterwards.
\<close>

definition processText ::
  "bool \<Rightarrow> (nat \<Rightarrow> js_string) \<Rightarrow> (js_string \<Rightarrow> js_string) \<Rightarrow> nat \<Rightarrow>
   js_string list \<Rightarrow> 'c \<Rightarrow> js_string \<Rightarrow> error + nat \<times> 'c ContentBlockRecord list" where
  "processText experimentalTreeDataSupport rand sanitizeDraftText calls textBlocks character ty =
     reduce (processText_callback experimentalTreeDataSupport rand sanitizeDraftText character ty)
       (calls, []) textBlocks"

subsection \<open>\<^verbatim>\<open>processText\<close> on a store\<close>

text \<open>
  The same function with the objects it works on in a store, for the
  properties that depend on which object is written. The store holds the
  caller's array \<^verbatim>\<open>textBlocks\<close>, the \<^verbatim>\<open>character\<close> object, the block records
  (a reference to a record is its index) and the number of calls of
  \<^verbatim>\<open>generateRandomKey\<close> so far. The accumulator \<^verbatim>\<open>acc\<close> is an array of
  references to records.
\<close>

record 'c Store =
  textBlocksArray :: "js_string list"
  characterObject :: 'c
  records :: "'c ContentBlockRecord list"
  keyCalls :: nat

text \<open>\<^verbatim>\<open>new ContentBlockRecord(config)\<close> allocates a record.\<close>

definition new_record :: "'c ContentBlockRecord \<Rightarrow> 'c Store \<Rightarrow> ref \<times> 'c Store" where
  "new_record config s = (length (records s), s\<lparr>records := records s @ [config]\<rparr>)"

text \<open>
  \<^verbatim>\<open>record.merge({nextSibling: key})\<close>: a record of Immutable.js is never
  written; \<^verbatim>\<open>merge\<close> returns a new record with the field changed.
\<close>

definition merge_nextSibling :: "ref \<Rightarrow> js_string \<Rightarrow> 'c Store \<Rightarrow> ref \<times> 'c Store" where
  "merge_nextSibling r k s = new_record ((records s ! r)\<lparr>nextSibling := Some k\<rparr>) s"

definition processText_callback_store ::
  "bool \<Rightarrow> (nat \<Rightarrow> js_string) \<Rightarrow> (js_string \<Rightarrow> js_string) \<Rightarrow> js_string \<Rightarrow>
   'c Store \<times> ref list \<Rightarrow> js_string \<Rightarrow> nat \<Rightarrow> error + 'c Store \<times> ref list" where
  "processText_callback_store experimentalTreeDataSupport rand sanitizeDraftText ty st textLine0 index =
     (case st of (s, acc) \<Rightarrow>
        let textLine = sanitizeDraftText textLine0;
            (k, calls') = generateRandomKey rand (keyCalls s);
            s1 = s\<lparr>keyCalls := calls'\<rparr>;
            blockNodeConfig =
              \<lparr>key = k, type = ty, text_field = textLine,
               characterList = replicate (length textLine) (characterObject s1),
               prevSibling = None, nextSibling = None\<rparr>
        in if experimentalTreeDataSupport \<and> index \<noteq> 0 then
             let prevSiblingIndex = index - 1
             in if prevSiblingIndex < length acc then
                  let (previousBlock, s2) = merge_nextSibling (acc ! prevSiblingIndex) k s1;
                      acc1 = acc[prevSiblingIndex := previousBlock];
                      blockNodeConfig' =
                        blockNodeConfig\<lparr>prevSibling := Some (key (records s2 ! previousBlock))\<rparr>;
                      (b, s3) = new_record blockNodeConfig' s2
                  in Inr (s3, acc1 @ [b])
                else Inl TypeError
           else let (b, s2) = new_record blockNodeConfig s1 in Inr (s2, acc @ [b]))"

text \<open>
  \<^verbatim>\<open>Array.prototype.reduce\<close> on the array in the store: the length is read once,
  then each index below it that the array (still) has is read from the store
  as it is at that iteration. The last argument is the number of iterations
  left.
\<close>

fun reduce_array ::
  "('c Store \<times> 'b \<Rightarrow> js_string \<Rightarrow> nat \<Rightarrow> error + 'c Store \<times> 'b) \<Rightarrow> 'c Store \<times> 'b \<Rightarrow> nat \<Rightarrow> nat \<Rightarrow>
   error + 'c Store \<times> 'b" where
  "reduce_array f st index 0 = Inr st"
| "reduce_array f st index (Suc n) =
     (if index < length (textBlocksArray (fst st)) then
        (case f st (textBlocksArray (fst st) ! index) index of
           Inl e \<Rightarrow> Inl e
         | Inr st' \<Rightarrow> reduce_array f st' (Suc index) n)
      else reduce_array f st (Suc index) n)"

text \<open>
  The first \<open>n\<close> iterations of \<^verbatim>\<open>processText\<close> on the store \<open>s\<close>, and the whole
  call: the store afterwards and the returned array.
\<close>

definition processText_iterations ::
  "bool \<Rightarrow> (nat \<Rightarrow> js_string) \<Rightarrow> (js_string \<Rightarrow> js_string) \<Rightarrow> js_string \<Rightarrow> 'c Store \<Rightarrow> nat \<Rightarrow>
   error + 'c Store \<times> ref list" where
  "processText_iterations experimentalTreeDataSupport rand sanitizeDraftText ty s n =
     reduce_array (processText_callback_store experimentalTreeDataSupport rand sanitizeDraftText ty)
       (s, []) 0 n"

definition processText_store ::
  "bool \<Rightarrow> (nat \<Rightarrow> js_string) \<Rightarrow> (js_string \<Rightarrow> js_string) \<Rightarrow> js_string \<Rightarrow> 'c Store \<Rightarrow>
   error + 'c Store \<times> ref list" where
  "processText_store experimentalTreeDataSupport rand sanitizeDraftText ty s =
     processText_iterations experimentalTreeDataSupport rand sanitizeDraftText ty s
       (length (textBlocksArray s))"

text \<open>
  \<^verbatim>\<open>processHTML(html, blockRenderMap, _postProcessInlineTag)\<close>. The declared
  result type is \<^verbatim>\<open>?{contentBlocks: ?Array<BlockNodeRecord>, entityMap: EntityMap}\<close>:
  the result and its field \<^verbatim>\<open>contentBlocks\<close> are both nullable. The functions
  \<^verbatim>\<open>convertFromHTMLtoContentBlocks\<close> and \<^verbatim>\<open>getSafeBodyFromHTML\<close> are declared
  outside the files at hand and are parameters. An optional argument that is
  left out is \<open>None\<close>; the render map, the post-processor and the entity map
  are only passed on.
\<close>

record 'c HTMLResult =
  contentBlocks :: "'c ContentBlockRecord list option"
  entityMap :: ref

definition processHTML ::
  "(js_string \<Rightarrow> 'g \<Rightarrow> ref option \<Rightarrow> ref option \<Rightarrow> 'c HTMLResult option) \<Rightarrow> 'g \<Rightarrow>
   js_string \<Rightarrow> ref option \<Rightarrow> ref option \<Rightarrow> 'c HTMLResult option" where
  "processHTML convertFromHTMLtoContentBlocks getSafeBodyFromHTML html blockRenderMap postProcessInlineTag =
     convertFromHTMLtoContentBlocks html getSafeBodyFromHTML blockRenderMap postProcessInlineTag"

section \<open>editOnDragOver\<close>

text \<open>
  The editor component is declared outside the files at hand. Its state is a
  record that has the field \<^verbatim>\<open>_internalDrag\<close> (here \<open>internalDrag\<close>) and whatever
  else the editor holds (the record's extension); its method \<^verbatim>\<open>setMode\<close> is a
  parameter. The event has the flag that \<^verbatim>\<open>preventDefault()\<close> sets.
\<close>

record DraftEditor =
  internalDrag :: bool

record SyntheticDragEvent =
  defaultPrevented :: bool

definition preventDefault :: "SyntheticDragEvent \<Rightarrow> SyntheticDragEvent" where
  "preventDefault e = e\<lparr>defaultPrevented := True\<rparr>"

text \<open>
  \<^verbatim>\<open>editOnDragOver(editor, e)\<close> returns nothing; the model returns the editor and
  the event as the two calls leave them. The assignment
  \<^verbatim>\<open>editor._internalDrag = false\<close> is commented out in the source.
\<close>

definition editOnDragOver ::
  "(string \<Rightarrow> 'a DraftEditor_scheme \<Rightarrow> 'a DraftEditor_scheme) \<Rightarrow>
   'a DraftEditor_scheme \<Rightarrow> SyntheticDragEvent \<Rightarrow> 'a DraftEditor_scheme \<times> SyntheticDragEvent" where
  "editOnDragOver setMode editor e =
     (let editor' = setMode ''drag'' editor;
          e' = preventDefault e
      in (editor', e'))"

section \<open>DraftEditorBlock\<close>

text \<open>
  The selection record is declared outside the files at hand; the model holds
  what its getters return.
\<close>

record SelectionState =
  getAnchorKey :: js_string
  getFocusKey :: js_string
  getEndKey :: js_string
  getHasFocus :: bool

datatype BidiDirection = LTR | RTL | NEUTRAL

text \<open>
  A leaf and a leaf set of the decorator tree (\<^verbatim>\<open>leaf.get('start')\<close>,
  \<^verbatim>\<open>leafSet.get('leaves')\<close>, ...). A \<^verbatim>\<open>decoratorKey\<close> that is \<^verbatim>\<open>null\<close> or
  \<^verbatim>\<open>undefined\<close> is \<open>None\<close>.
\<close>

record Leaf =
  leaf_start :: int
  leaf_end :: int

record LeafSet =
  set_start :: int
  set_end :: int
  decoratorKey :: "js_string option"
  leaves :: "Leaf list"

text \<open>
  A decorator: \<^verbatim>\<open>getComponentForKey\<close> gives a component or a falsy value
  (\<open>None\<close>), \<^verbatim>\<open>getPropsForKey\<close> gives the props object.
\<close>

record DraftDecoratorType =
  getComponentForKey :: "js_string \<Rightarrow> ref option"
  getPropsForKey :: "js_string \<Rightarrow> ref"

text \<open>
  The props of the component, as far as its methods read them. The block and
  the tree are immutable objects that \<^verbatim>\<open>shouldComponentUpdate\<close> compares by
  identity: the props hold their references, and \<open>blockAt\<close> and \<open>treeAt\<close> give
  the objects behind the references.
\<close>

record Props =
  block :: ref
  contentState :: ref
  customStyleFn :: ref
  customStyleMap :: ref
  decorator :: "DraftDecoratorType option"
  direction :: BidiDirection
  forceSelection :: bool
  offsetKey :: js_string
  selection :: SelectionState
  tree :: ref
  editor :: ref

record 'c Objects =
  blockAt :: "ref \<Rightarrow> 'c ContentBlockRecord"
  treeAt :: "ref \<Rightarrow> LeafSet list"

definition isBlockOnSelectionEdge :: "SelectionState \<Rightarrow> js_string \<Rightarrow> bool" where
  "isBlockOnSelectionEdge sel k \<longleftrightarrow> getAnchorKey sel = k \<or> getFocusKey sel = k"

definition shouldComponentUpdate :: "'c Objects \<Rightarrow> Props \<Rightarrow> Props \<Rightarrow> bool" where
  "shouldComponentUpdate objs props nextProps \<longleftrightarrow>
     block props \<noteq> block nextProps \<or>
     tree props \<noteq> tree nextProps \<or>
     direction props \<noteq> direction nextProps \<or>
     (isBlockOnSelectionEdge (selection nextProps) (key (blockAt objs (block nextProps))) \<and>
      forceSelection nextProps)"

subsection \<open>componentDidMount\<close>

text \<open>
  Pixel coordinates are integers. The document is what the component measures:
  the DOM nodes of components, the scroll parent of a node (the window or an
  element), scroll positions, element positions and the viewport's height. The
  functions that measure (\<^verbatim>\<open>ReactDOM.findDOMNode\<close>, \<^verbatim>\<open>Style.getScrollParent\<close>,
  \<^verbatim>\<open>getScrollPosition\<close>, \<^verbatim>\<open>getElementPosition\<close>, \<^verbatim>\<open>getViewportDimensions\<close>) are
  declared outside the files at hand.
\<close>

datatype ScrollParent = Window | Element ref

record ElementPosition =
  pos_y :: int
  pos_height :: int

record ScrollPosition =
  scroll_x :: int
  scroll_y :: int

record Document =
  findDOMNode :: "ref \<Rightarrow> ref"
  getScrollParent :: "ref \<Rightarrow> ScrollParent"
  getScrollPosition :: "ScrollParent \<Rightarrow> ScrollPosition"
  getElementPosition :: "ref \<Rightarrow> ElementPosition"
  viewportHeight :: int
  document_body :: ref

text \<open>The two ways in which the method scrolls.\<close>

datatype ScrollEffect = WindowScrollTo int int | ScrollSetTop ref int

definition SCROLL_BUFFER :: int where
  "SCROLL_BUFFER = 10"

text \<open>
  The measurements that \<^verbatim>\<open>componentDidMount\<close> takes once it has passed its
  guard, under the names of the source's constants.
\<close>

record Layout =
  isScrParentWindow :: bool
  scrollParent :: ref
  scrollPosition :: ScrollPosition
  blockHeight :: int
  blockTop :: int
  blockBottom :: int
  visTop :: int
  visHeight :: int
  visBottom :: int

definition measureLayout :: "Document \<Rightarrow> ref \<Rightarrow> Props \<Rightarrow> Layout" where
  "measureLayout doc this props =
     (let blockNode = findDOMNode doc this;
          editorNode = findDOMNode doc (editor props);
          scrollParent0 = getScrollParent doc blockNode;
          scrollPosition' = getScrollPosition doc scrollParent0;
          blockPosition = getElementPosition doc blockNode;
          editorPosition = getElementPosition doc editorNode;
          isScrParentWindow' = (scrollParent0 = Window);
          viewportHeight' = viewportHeight doc;
          scrollParent' = (case scrollParent0 of Window \<Rightarrow> document_body doc | Element n \<Rightarrow> n);
          scrollParentPosition =
            (if \<not> isScrParentWindow' then getElementPosition doc scrollParent'
             else \<lparr>pos_y = 0, pos_height = viewportHeight'\<rparr>);
          blockHeight' = pos_height blockPosition;
          blockTop' = pos_y blockPosition - pos_y editorPosition;
          blockBottom' = blockTop' + blockHeight';
          visTop' = pos_y scrollParentPosition - pos_y editorPosition;
          visHeight' = pos_height scrollParentPosition;
          visBottom' = visTop' + visHeight'
      in \<lparr>isScrParentWindow = isScrParentWindow', scrollParent = scrollParent',
          scrollPosition = scrollPosition', blockHeight = blockHeight', blockTop = blockTop',
          blockBottom = blockBottom', visTop = visTop', visHeight = visHeight',
          visBottom = visBottom'\<rparr>)"

text \<open>The value of \<^verbatim>\<open>correctScrollTop\<close>; \<open>None\<close> is \<^verbatim>\<open>undefined\<close>.\<close>

definition correctScrollTop :: "Layout \<Rightarrow> int option" where
  "correctScrollTop l =
     (let scrollDeltaTop = visTop l - blockTop l;
          scrollDeltaBottom = visBottom l - blockBottom l;
          isBigBlock = (blockHeight l \<ge> visHeight l)
      in if visTop l > blockTop l \<or> (isBigBlock \<and> blockTop l > visBottom l) then
           Some (scroll_y (scrollPosition l) - SCROLL_BUFFER - scrollDeltaTop)
         else if \<not> isBigBlock \<and> blockBottom l > visBottom l then
           Some (scroll_y (scrollPosition l) + SCROLL_BUFFER - scrollDeltaBottom)
         else None)"

text \<open>
  \<^verbatim>\<open>componentDidMount()\<close> of the component \<open>this\<close>: the scrolling it performs,
  \<open>None\<close> when it performs none.
\<close>

definition componentDidMount ::
  "Document \<Rightarrow> 'c Objects \<Rightarrow> ref \<Rightarrow> Props \<Rightarrow> ScrollEffect option" where
  "componentDidMount doc objs this props =
     (let selection' = selection props;
          endKey = getEndKey selection'
      in if \<not> getHasFocus selection' \<or> endKey \<noteq> key (blockAt objs (block props)) then None
         else
           let l = measureLayout doc this props
           in (case correctScrollTop l of
                 None \<Rightarrow> None
               | Some scrollTop \<Rightarrow>
                   if isScrParentWindow l
                   then Some (WindowScrollTo (scroll_x (scrollPosition l)) scrollTop)
                   else Some (ScrollSetTop (scrollParent l) scrollTop)))"

subsection \<open>_renderChildren\<close>

text \<open>
  \<^verbatim>\<open>String.prototype.slice(start, end)\<close>: a negative index counts from the end,
  both indices are clamped to the string, and the result is empty when the
  end is not after the start.
\<close>

definition js_slice :: "js_string \<Rightarrow> int \<Rightarrow> int \<Rightarrow> js_string" where
  "js_slice s start end' =
     (let len = int (length s);
          k_from = (if start < 0 then max (len + start) 0 else min start len);
          k_to = (if end' < 0 then max (len + end') 0 else min end' len);
          span = max (k_to - k_from) 0
      in take (nat span) (drop (nat k_from) s))"

text \<open>
  The functions of other modules that \<^verbatim>\<open>_renderChildren\<close> calls, declared
  outside the files at hand: \<^verbatim>\<open>DraftOffsetKey.encode\<close>, the block's methods
  \<^verbatim>\<open>getInlineStyleAt\<close> and \<^verbatim>\<open>getEntityAt\<close>, \<^verbatim>\<open>UnicodeBidi.getDirection\<close> and
  \<^verbatim>\<open>UnicodeBidiDirection.getHTMLDirIfDifferent\<close>.
\<close>

record 'c Library =
  encode :: "js_string \<Rightarrow> nat \<Rightarrow> nat \<Rightarrow> js_string"
  getInlineStyleAt :: "'c ContentBlockRecord \<Rightarrow> int \<Rightarrow> js_string list"
  getEntityAt :: "'c ContentBlockRecord \<Rightarrow> int \<Rightarrow> js_string option"
  getDirection :: "js_string \<Rightarrow> BidiDirection"
  getHTMLDirIfDifferent :: "BidiDirection \<Rightarrow> BidiDirection \<Rightarrow> js_string option"

text \<open>
  The props of a rendered \<^verbatim>\<open>DraftEditorLeaf\<close> element (each field is the prop of
  that name, with the prefix \<open>leaf\<close>) and of a rendered decorator component.
\<close>

record LeafProps =
  leafKey :: js_string
  leafOffsetKey :: js_string
  leafBlock :: ref
  leafStart :: int
  leafSelection :: "SelectionState option"
  leafForceSelection :: bool
  leafText :: js_string
  leafStyleSet :: "js_string list"
  leafCustomStyleMap :: ref
  leafCustomStyleFn :: ref
  leafIsLast :: bool

record DecoratorElement =
  component :: ref
  decoratorProps :: ref
  decoratorContentState :: ref
  decoratedText :: js_string
  dir :: "js_string option"
  decoratorElementKey :: js_string
  entityKey :: "js_string option"
  decoratorOffsetKey :: js_string
  children :: "LeafProps list"

text \<open>
  What one leaf set is rendered to: its array of leaf elements, or one
  decorator element that has them as children.
\<close>

datatype Rendered = Leaves "LeafProps list" | Decorated DecoratorElement

fun renderedLeaves :: "Rendered \<Rightarrow> LeafProps list" where
  "renderedLeaves (Leaves ls) = ls"
| "renderedLeaves (Decorated d) = children d"

text \<open>
  \<^verbatim>\<open>map\<close> with a callback that may throw: the first exception ends it.
\<close>

fun throwing_map :: "('a \<Rightarrow> error + 'b) \<Rightarrow> 'a list \<Rightarrow> error + 'b list" where
  "throwing_map f [] = Inr []"
| "throwing_map f (x # xs) =
     (case f x of
        Inl e \<Rightarrow> Inl e
      | Inr y \<Rightarrow> (case throwing_map f xs of Inl e \<Rightarrow> Inl e | Inr ys \<Rightarrow> Inr (y # ys)))"

text \<open>
  The inner callback, which renders the leaf \<open>jj\<close> of the leaf set \<open>ii\<close>.
\<close>

definition renderLeaf ::
  "'c Library \<Rightarrow> 'c ContentBlockRecord \<Rightarrow> Props \<Rightarrow> bool \<Rightarrow> int \<Rightarrow> int \<Rightarrow> nat \<Rightarrow> nat \<Rightarrow> Leaf \<Rightarrow> LeafProps" where
  "renderLeaf lib block' props hasSelection lastLeafSet lastLeaf ii jj leaf =
     (let offsetKey' = encode lib (key block') ii jj;
          start = leaf_start leaf;
          end' = leaf_end leaf
      in \<lparr>leafKey = offsetKey', leafOffsetKey = offsetKey', leafBlock = block props,
          leafStart = start,
          leafSelection = (if hasSelection then Some (selection props) else None),
          leafForceSelection = forceSelection props,
          leafText = js_slice (text_field block') start end',
          leafStyleSet = getInlineStyleAt lib block' start,
          leafCustomStyleMap = customStyleMap props,
          leafCustomStyleFn = customStyleFn props,
          leafIsLast = (int ii = lastLeafSet \<and> int jj = lastLeaf)\<rparr>)"

text \<open>
  The outer callback, which renders the leaf set \<open>ii\<close>. On a leaf set without
  leaves, \<^verbatim>\<open>leavesForLeafSet.first()\<close> is \<^verbatim>\<open>undefined\<close> and \<^verbatim>\<open>.get('start')\<close>
  throws.
\<close>

definition renderLeafSet ::
  "'c Library \<Rightarrow> 'c ContentBlockRecord \<Rightarrow> Props \<Rightarrow> bool \<Rightarrow> int \<Rightarrow> nat \<Rightarrow> LeafSet \<Rightarrow> error + Rendered" where
  "renderLeafSet lib block' props hasSelection lastLeafSet ii leafSet =
     (let leavesForLeafSet = leaves leafSet;
          lastLeaf = int (length leavesForLeafSet) - 1;
          leaves' = map (\<lambda>(jj, leaf). renderLeaf lib block' props hasSelection lastLeafSet lastLeaf ii jj leaf)
                      (enumerate 0 leavesForLeafSet)
      in case decoratorKey leafSet of
           None \<Rightarrow> Inr (Leaves leaves')
         | Some decoratorKey' \<Rightarrow>
             (case decorator props of
                None \<Rightarrow> Inr (Leaves leaves')
              | Some decorator' \<Rightarrow>
                  (case getComponentForKey decorator' decoratorKey' of
                     None \<Rightarrow> Inr (Leaves leaves')
                   | Some DecoratorComponent \<Rightarrow>
                       let decoratorProps' = getPropsForKey decorator' decoratorKey';
                           decoratorOffsetKey' = encode lib (key block') ii 0
                       in if leavesForLeafSet = [] then Inl TypeError
                          else
                            let decoratedText' =
                                  js_slice (text_field block') (leaf_start (hd leavesForLeafSet))
                                    (leaf_end (last leavesForLeafSet));
                                dir' = getHTMLDirIfDifferent lib (getDirection lib decoratedText')
                                         (direction props)
                            in Inr (Decorated
                                 \<lparr>component = DecoratorComponent, decoratorProps = decoratorProps',
                                  decoratorContentState = contentState props,
                                  decoratedText = decoratedText', dir = dir',
                                  decoratorElementKey = decoratorOffsetKey',
                                  entityKey = getEntityAt lib block' (set_start leafSet),
                                  decoratorOffsetKey = decoratorOffsetKey',
                                  children = leaves'\<rparr>))))"

text \<open>The method \<^verbatim>\<open>_renderChildren()\<close>.\<close>

definition renderChildren :: "'c Library \<Rightarrow> 'c Objects \<Rightarrow> Props \<Rightarrow> error + Rendered list" where
  "renderChildren lib objs props =
     (let block' = blockAt objs (block props);
          blockKey = key block';
          tree' = treeAt objs (tree props);
          lastLeafSet = int (length tree') - 1;
          hasSelection = isBlockOnSelectionEdge (selection props) blockKey
      in throwing_map (\<lambda>(ii, leafSet). renderLeafSet lib block' props hasSelection lastLeafSet ii leafSet)
           (enumerate 0 tree'))"

section \<open>Sample data\<close>

text \<open>
  A key generator that returns \<^verbatim>\<open>k0\<close>, \<^verbatim>\<open>k1\<close>, ... at successive calls.
\<close>

definition sample_keys :: "nat \<Rightarrow> js_string" where
  "sample_keys i = [0x6B, 0x30 + word_of_nat i]"

text \<open>
  A store with an array of the three lines \<^verbatim>\<open>a\<close>, \<^verbatim>\<open>bc\<close> and the empty line, and no
  record yet.
\<close>

definition sample_store :: "nat Store" where
  "sample_store = \<lparr>textBlocksArray = [[0x61], [0x62, 0x63], []], characterObject = 0,
     records = [], keyCalls = 0\<rparr>"

text \<open>
  A block with the text \<^verbatim>\<open>abcd\<close>, a tree of two leaf sets of which the second
  has a decorator key, a selection in that block, props, a decorator, sample
  library functions, and a document in which the block lies below the bottom
  of the window.
\<close>

definition sample_block :: "nat ContentBlockRecord" where
  "sample_block = \<lparr>key = [0x6B, 0x30], type = [0x75], text_field = [0x61, 0x62, 0x63, 0x64],
     characterList = [0, 0, 0, 0], prevSibling = None, nextSibling = None\<rparr>"

definition sample_tree :: "LeafSet list" where
  "sample_tree =
     [\<lparr>set_start = 0, set_end = 1, decoratorKey = None,
       leaves = [\<lparr>leaf_start = 0, leaf_end = 1\<rparr>]\<rparr>,
      \<lparr>set_start = 1, set_end = 4, decoratorKey = Some [0x64],
       leaves = [\<lparr>leaf_start = 1, leaf_end = 3\<rparr>, \<lparr>leaf_start = 3, leaf_end = 4\<rparr>]\<rparr>]"

definition sample_objects :: "nat Objects" where
  "sample_objects = \<lparr>blockAt = (\<lambda>r. sample_block), treeAt = (\<lambda>r. sample_tree)\<rparr>"

definition sample_selection :: SelectionState where
  "sample_selection = \<lparr>getAnchorKey = [0x6B, 0x30], getFocusKey = [0x6B, 0x30],
     getEndKey = [0x6B, 0x30], getHasFocus = True\<rparr>"

definition sample_props :: Props where
  "sample_props = \<lparr>block = 1, contentState = 2, customStyleFn = 3, customStyleMap = 4,
     decorator = None, direction = LTR, forceSelection = False, offsetKey = [0x6B, 0x30],
     selection = sample_selection, tree = 5, editor = 6\<rparr>"

definition sample_decorator :: DraftDecoratorType where
  "sample_decorator = \<lparr>getComponentForKey = (\<lambda>k. if k = [0x64] then Some 9 else None),
     getPropsForKey = (\<lambda>k. 10)\<rparr>"

definition sample_library :: "nat Library" where
  "sample_library = \<lparr>encode = (\<lambda>k ii jj. k @ [0x2D, 0x30 + word_of_nat ii, 0x2D, 0x30 + word_of_nat jj]),
     getInlineStyleAt = (\<lambda>b i. []), getEntityAt = (\<lambda>b i. None),
     getDirection = (\<lambda>t. LTR),
     getHTMLDirIfDifferent = (\<lambda>d other. if d = other then None else Some [0x6C, 0x74, 0x72])\<rparr>"

definition sample_document :: Document where
  "sample_document = \<lparr>findDOMNode = (\<lambda>c. c + 100), getScrollParent = (\<lambda>n. Window),
     getScrollPosition = (\<lambda>p. \<lparr>scroll_x = 0, scroll_y = 50\<rparr>),
     getElementPosition = (\<lambda>n. if n = 100 then \<lparr>pos_y = 900, pos_height = 20\<rparr>
                                 else \<lparr>pos_y = 0, pos_height = 2000\<rparr>),
     viewportHeight = 600, document_body = 7\<rparr>"

section \<open>Properties of \<^verbatim>\<open>reduce\<close> and of the callback\<close>

lemma reduce_from_snoc:
  "reduce_from f a i (xs @ [x]) =
     (case reduce_from f a i xs of Inl e \<Rightarrow> Inl e | Inr a' \<Rightarrow> f a' x (i + length xs))"
  by (induction xs arbitrary: a i) (auto split: sum.splits)

lemma callback_flat:
  "\<not> (flag \<and> index \<noteq> 0) \<Longrightarrow>
   processText_callback flag rand san c ty (calls, acc) l index =
     Inr (Suc calls,
          acc @ [\<lparr>key = rand calls, type = ty, text_field = san l,
                  characterList = replicate (length (san l)) c,
                  prevSibling = None, nextSibling = None\<rparr>])"
  by (simp add: processText_callback_def generateRandomKey_def Let_def)

lemma callback_tree:
  "flag \<Longrightarrow> index \<noteq> 0 \<Longrightarrow> index - 1 < length acc \<Longrightarrow>
   processText_callback flag rand san c ty (calls, acc) l index =
     Inr (Suc calls,
          acc[index - 1 := (acc ! (index - 1))\<lparr>nextSibling := Some (rand calls)\<rparr>] @
          [\<lparr>key = rand calls, type = ty, text_field = san l,
            characterList = replicate (length (san l)) c,
            prevSibling = Some (key (acc ! (index - 1))), nextSibling = None\<rparr>])"
  by (simp add: processText_callback_def generateRandomKey_def Let_def)

lemma processText_closed_form:
  "processText flag rand san calls tb c ty =
     Inr (calls + length tb,
          map (\<lambda>j. \<lparr>key = rand (calls + j), type = ty, text_field = san (tb ! j),
                    characterList = replicate (length (san (tb ! j))) c,
                    prevSibling = (if flag \<and> j \<noteq> 0 then Some (rand (calls + j - 1)) else None),
                    nextSibling = (if flag \<and> Suc j < length tb then Some (rand (calls + Suc j)) else None)\<rparr>)
              [0..<length tb])"
  (is "_ = Inr (_, ?blocks tb)")
proof (induction tb rule: rev_induct)
  case Nil
  show ?case by (simp add: processText_def reduce_def)
next
  case (snoc x xs)
  let ?n = "length xs"
  have run: "processText flag rand san calls (xs @ [x]) c ty =
      processText_callback flag rand san c ty (calls + ?n, ?blocks xs) x ?n"
    using snoc by (simp add: processText_def reduce_def reduce_from_snoc)
  show ?case
  proof (cases "flag \<and> ?n \<noteq> 0")
    case False
    have "?blocks (xs @ [x]) = ?blocks xs @
        [\<lparr>key = rand (calls + ?n), type = ty, text_field = san x,
          characterList = replicate (length (san x)) c,
          prevSibling = None, nextSibling = None\<rparr>]"
      using False by (auto simp: nth_append)
    moreover have "processText_callback flag rand san c ty (calls + ?n, ?blocks xs) x ?n =
        Inr (Suc (calls + ?n), ?blocks xs @
        [\<lparr>key = rand (calls + ?n), type = ty, text_field = san x,
          characterList = replicate (length (san x)) c,
          prevSibling = None, nextSibling = None\<rparr>])"
      by (rule callback_flat[OF False])
    ultimately show ?thesis
      by (simp only: run) simp
  next
    case True
    then have t: flag and n: "?n \<noteq> 0" by simp_all
    have len: "?n - 1 < length (?blocks xs)" using n by simp
    have ar: "calls + ?n - Suc 0 = calls + (?n - Suc 0)" using n by (cases xs) simp_all
    have "?blocks (xs @ [x]) =
        (?blocks xs)[?n - 1 := (?blocks xs ! (?n - 1))\<lparr>nextSibling := Some (rand (calls + ?n))\<rparr>] @
        [\<lparr>key = rand (calls + ?n), type = ty, text_field = san x,
          characterList = replicate (length (san x)) c,
          prevSibling = Some (key (?blocks xs ! (?n - 1))), nextSibling = None\<rparr>]"
    proof (rule nth_equalityI)
      show "length (?blocks (xs @ [x])) = length ((?blocks xs)[?n - 1 := (?blocks xs ! (?n - 1))\<lparr>nextSibling := Some (rand (calls + ?n))\<rparr>] @
        [\<lparr>key = rand (calls + ?n), type = ty, text_field = san x,
          characterList = replicate (length (san x)) c,
          prevSibling = Some (key (?blocks xs ! (?n - 1))), nextSibling = None\<rparr>])"
        by simp
    next
      fix i assume "i < length (?blocks (xs @ [x]))"
      then have i: "i < Suc ?n" by simp
      consider "i = ?n" | "i = ?n - 1" "i < ?n" | "i < ?n - 1" using i n by linarith
      then show "?blocks (xs @ [x]) ! i = ((?blocks xs)[?n - 1 := (?blocks xs ! (?n - 1))\<lparr>nextSibling := Some (rand (calls + ?n))\<rparr>] @
        [\<lparr>key = rand (calls + ?n), type = ty, text_field = san x,
          characterList = replicate (length (san x)) c,
          prevSibling = Some (key (?blocks xs ! (?n - 1))), nextSibling = None\<rparr>]) ! i"
      proof cases
        case 1
        then show ?thesis using t n ar by (simp add: nth_append)
      next
        case 2
        then show ?thesis using t n ar by (simp add: nth_append)
      next
        case 3
        then have "Suc i < ?n" "i < ?n" "i \<noteq> ?n - 1" by linarith+
        then show ?thesis using t n ar by (simp add: nth_append)
      qed
    qed
    then show ?thesis
      by (simp only: run callback_tree[OF t n len]) simp
  qed
qed

section \<open>Properties of \<^verbatim>\<open>processText\<close>\<close>

text \<open>
  Claim C1, as stated: two calls of \<^verbatim>\<open>processText\<close> with the same arguments
  return equal results, in particular equal block keys. It fails: the key of a
  block is what \<^verbatim>\<open>generateRandomKey\<close> returns at that call. With a generator that
  returns \<^verbatim>\<open>k0\<close> and then \<^verbatim>\<open>k1\<close>, two successive calls on the one line \<^verbatim>\<open>a\<close>
  return blocks with the keys \<^verbatim>\<open>k0\<close> and \<^verbatim>\<open>k1\<close>.
\<close>

theorem processText_keys_differ_counterexample:
  "processText False sample_keys id 0 [[0x61]] (0::nat) [0x75]
     = Inr (1, [\<lparr>key = [0x6B, 0x30], type = [0x75], text_field = [0x61], characterList = [0],
                 prevSibling = None, nextSibling = None\<rparr>]) \<and>
   processText False sample_keys id 1 [[0x61]] (0::nat) [0x75]
     = Inr (2, [\<lparr>key = [0x6B, 0x31], type = [0x75], text_field = [0x61], characterList = [0],
                 prevSibling = None, nextSibling = None\<rparr>]) \<and>
   [0x6B, 0x30] \<noteq> ([0x6B, 0x31] :: js_string)"
  by (simp add: processText_def reduce_def processText_callback_def generateRandomKey_def sample_keys_def Let_def)

text \<open>
  Claim C1, amended: the result of \<^verbatim>\<open>processText\<close> is determined by its three
  arguments and by the keys that \<^verbatim>\<open>generateRandomKey\<close> returns during the call.
  Two calls with the same arguments never throw and return the same number of
  blocks, with equal type, text and character list for corresponding blocks;
  the block keys are the values that the generator returned, in call order;
  and when the generator returns the same keys in both calls, the results are
  equal.
\<close>

theorem processText_determined_by_arguments_and_keys:
  "\<exists>n1 n2 blocks1 blocks2.
     processText flag rand sanitizeDraftText calls textBlocks character ty = Inr (n1, blocks1) \<and>
     processText flag rand' sanitizeDraftText calls' textBlocks character ty = Inr (n2, blocks2) \<and>
     length blocks1 = length blocks2 \<and>
     map type blocks1 = map type blocks2 \<and>
     map text_field blocks1 = map text_field blocks2 \<and>
     map characterList blocks1 = map characterList blocks2 \<and>
     map key blocks1 = map rand [calls..<calls + length textBlocks] \<and>
     map key blocks2 = map rand' [calls'..<calls' + length textBlocks] \<and>
     ((\<forall>j<length textBlocks. rand (calls + j) = rand' (calls' + j)) \<longrightarrow> blocks1 = blocks2)"
proof -
  have keys: "map (\<lambda>j. r (n + j)) [0..<m] = map r [n..<n + m]" for r :: "nat \<Rightarrow> js_string" and n m
    by (rule nth_equalityI) simp_all
  have same: "blocks1 = blocks2"
    if eq: "\<forall>j<length textBlocks. rand (calls + j) = rand' (calls' + j)"
    and b1: "blocks1 = map (\<lambda>j. \<lparr>key = rand (calls + j), type = ty, text_field = sanitizeDraftText (textBlocks ! j),
                    characterList = replicate (length (sanitizeDraftText (textBlocks ! j))) character,
                    prevSibling = (if flag \<and> j \<noteq> 0 then Some (rand (calls + j - 1)) else None),
                    nextSibling = (if flag \<and> Suc j < length textBlocks then Some (rand (calls + Suc j)) else None)\<rparr>)
              [0..<length textBlocks]"
    and b2: "blocks2 = map (\<lambda>j. \<lparr>key = rand' (calls' + j), type = ty, text_field = sanitizeDraftText (textBlocks ! j),
                    characterList = replicate (length (sanitizeDraftText (textBlocks ! j))) character,
                    prevSibling = (if flag \<and> j \<noteq> 0 then Some (rand' (calls' + j - 1)) else None),
                    nextSibling = (if flag \<and> Suc j < length textBlocks then Some (rand' (calls' + Suc j)) else None)\<rparr>)
              [0..<length textBlocks]"
    for blocks1 blocks2 :: "'a ContentBlockRecord list"
  proof (rule nth_equalityI)
    show "length blocks1 = length blocks2" by (simp add: b1 b2)
  next
    fix i assume "i < length blocks1"
    then have i: "i < length textBlocks" by (simp add: b1)
    have k: "rand (calls + i) = rand' (calls' + i)" using eq i by simp
    have p: "rand (calls + i - 1) = rand' (calls' + i - 1)" if "i \<noteq> 0"
    proof -
      have "i - 1 < length textBlocks" "calls + i - 1 = calls + (i - 1)" "calls' + i - 1 = calls' + (i - 1)"
        using i that by simp_all
      then show ?thesis using eq by simp
    qed
    have n: "rand (calls + Suc i) = rand' (calls' + Suc i)" if "Suc i < length textBlocks"
      using eq that by blast
    show "blocks1 ! i = blocks2 ! i"
      using i k p n by (simp add: b1 b2)
  qed
  show ?thesis
    unfolding processText_closed_form
    apply (intro exI conjI)
            apply (rule refl)
           apply (rule refl)
          apply simp
         apply (simp add: o_def)
        apply (simp add: o_def)
       apply (simp add: o_def)
      apply (simp add: o_def keys)
     apply (simp add: o_def keys)
    apply (rule impI)
    apply (erule same)
     apply (rule refl)
    apply (rule refl)
    done
qed

theorem processText_determined_by_arguments_and_keys_witness:
  "\<exists>blocks.
     map_sum id snd (processText True sample_keys id 0 [[0x61], [0x62]] (0::nat) [0x75]) = Inr blocks \<and>
     map_sum id snd (processText True (\<lambda>i. if i < 2 then sample_keys i else []) id 0
        [[0x61], [0x62]] (0::nat) [0x75]) = Inr blocks \<and>
     map key blocks = [[0x6B, 0x30], [0x6B, 0x31]]"
proof -
  have agree: "\<forall>j<length [[0x61::16 word], [0x62]].
      sample_keys (0 + j) = (\<lambda>i. if i < 2 then sample_keys i else []) (0 + j)"
    by simp
  from processText_determined_by_arguments_and_keys
    [of True sample_keys id 0 "[[0x61], [0x62]]" "0::nat" "[0x75]"
        "\<lambda>i. if i < 2 then sample_keys i else []" 0]
  obtain n1 n2 blocks1 blocks2 where
    r1: "processText True sample_keys id 0 [[0x61], [0x62]] (0::nat) [0x75] = Inr (n1, blocks1)" and
    r2: "processText True (\<lambda>i. if i < 2 then sample_keys i else []) id 0
        [[0x61], [0x62]] (0::nat) [0x75] = Inr (n2, blocks2)" and
    k: "map key blocks1 = map sample_keys [0..<0 + length [[0x61::16 word], [0x62]]]" and
    imp: "(\<forall>j<length [[0x61::16 word], [0x62]].
      sample_keys (0 + j) = (\<lambda>i. if i < 2 then sample_keys i else []) (0 + j)) \<longrightarrow> blocks1 = blocks2"
    by blast
  from imp agree have "blocks1 = blocks2" by blast
  moreover have "map key blocks1 = [[0x6B, 0x30], [0x6B, 0x31]]"
    using k by (simp add: sample_keys_def upt_rec)
  ultimately show ?thesis using r1 r2 by simp
qed

text \<open>
  Claim C3: for every list \<^verbatim>\<open>textBlocks\<close>, \<^verbatim>\<open>processText\<close> returns (without
  throwing) exactly one block per element, in the same order; each block's
  type is the type argument and each block's text is \<^verbatim>\<open>sanitizeDraftText\<close> of the
  corresponding line.
\<close>

theorem processText_one_block_per_line:
  "\<exists>calls' blocks.
     processText flag rand sanitizeDraftText calls textBlocks character ty = Inr (calls', blocks) \<and>
     length blocks = length textBlocks \<and>
     map type blocks = replicate (length textBlocks) ty \<and>
     map text_field blocks = map sanitizeDraftText textBlocks"
  by (simp add: processText_closed_form o_def map_replicate_const map_nth
      flip: map_map[of sanitizeDraftText "(!) textBlocks", unfolded o_def])

text \<open>
  Claim C4: for every text line passed to \<^verbatim>\<open>processText\<close>, the block returned
  for that line has the sanitized line as its text and a character list that
  is as long as that text, of which every element is the \<^verbatim>\<open>character\<close>
  argument: the list is \<open>length (sanitizeDraftText line)\<close> copies of
  \<^verbatim>\<open>character\<close>.
\<close>

theorem processText_characterList:
  "\<exists>calls' blocks.
     processText flag rand sanitizeDraftText calls textBlocks character ty = Inr (calls', blocks) \<and>
     length blocks = length textBlocks \<and>
     map text_field blocks = map sanitizeDraftText textBlocks \<and>
     map characterList blocks =
       map (\<lambda>textLine. replicate (length (sanitizeDraftText textLine)) character) textBlocks \<and>
     map (\<lambda>b. length (characterList b)) blocks = map (\<lambda>b. length (text_field b)) blocks \<and>
     map characterList blocks = map (\<lambda>b. replicate (length (text_field b)) character) blocks"
proof -
  have t: "map (\<lambda>j. sanitizeDraftText (textBlocks ! j)) [0..<length textBlocks] =
      map sanitizeDraftText textBlocks"
    by (rule nth_equalityI) simp_all
  have c: "map (\<lambda>j. replicate (length (sanitizeDraftText (textBlocks ! j))) character)
        [0..<length textBlocks] =
      map (\<lambda>textLine. replicate (length (sanitizeDraftText textLine)) character) textBlocks"
    by (rule nth_equalityI) simp_all
  show ?thesis
    by (simp add: processText_closed_form o_def t c)
qed

theorem processText_characterList_witness:
  "\<exists>calls' b0 b1.
     processText False sample_keys id 0 [[0x61, 0x62], []] (7::nat) [0x75] = Inr (calls', [b0, b1]) \<and>
     text_field b0 = [0x61, 0x62] \<and> characterList b0 = [7, 7] \<and>
     text_field b1 = [] \<and> characterList b1 = []"
proof -
  from processText_characterList[of False sample_keys id 0 "[[0x61, 0x62], []]" "7::nat" "[0x75]"]
  obtain calls' blocks where
    r: "processText False sample_keys id 0 [[0x61, 0x62], []] (7::nat) [0x75] = Inr (calls', blocks)" and
    l: "length blocks = length [[0x61, 0x62 :: 16 word], []]" and
    t: "map text_field blocks = map id [[0x61, 0x62], []]" and
    c: "map characterList blocks = map (\<lambda>textLine. replicate (length (id textLine)) (7::nat)) [[0x61, 0x62 :: 16 word], []]"
    by (elim exE conjE)
  from l obtain b0 b1 where b: "blocks = [b0, b1]"
    by (cases blocks; cases "tl blocks") auto
  from t c have "text_field b0 = [0x61, 0x62]" "characterList b0 = [7, 7]"
    "text_field b1 = []" "characterList b1 = []"
    by (simp_all add: b numeral_2_eq_2)
  with r b show ?thesis by blast
qed

lemma sibling_chain_of_result:
  assumes "processText True rand sanitizeDraftText calls textBlocks character ty = Inr (calls', blocks)"
  shows "(\<forall>i. 0 < i \<and> i < length blocks \<longrightarrow>
            prevSibling (blocks ! i) = Some (key (blocks ! (i - 1))) \<and>
            nextSibling (blocks ! (i - 1)) = Some (key (blocks ! i))) \<and>
         (blocks \<noteq> [] \<longrightarrow> prevSibling (hd blocks) = None \<and> nextSibling (last blocks) = None)"
proof -
  have b: "blocks = map (\<lambda>j. \<lparr>key = rand (calls + j), type = ty, text_field = sanitizeDraftText (textBlocks ! j),
                    characterList = replicate (length (sanitizeDraftText (textBlocks ! j))) character,
                    prevSibling = (if True \<and> j \<noteq> 0 then Some (rand (calls + j - 1)) else None),
                    nextSibling = (if True \<and> Suc j < length textBlocks then Some (rand (calls + Suc j)) else None)\<rparr>)
              [0..<length textBlocks]"
    using assms by (simp add: processText_closed_form)
  have len: "length blocks = length textBlocks" by (simp add: b)
  have 1: "prevSibling (blocks ! i) = Some (key (blocks ! (i - 1))) \<and>
           nextSibling (blocks ! (i - 1)) = Some (key (blocks ! i))" if "0 < i" "i < length blocks" for i
  proof -
    have "i - 1 < length textBlocks" "i < length textBlocks" "Suc (i - 1) = i" "calls + i - 1 = calls + (i - 1)"
      using that len by simp_all
    then show ?thesis using that by (simp add: b)
  qed
  have 2: "prevSibling (hd blocks) = None \<and> nextSibling (last blocks) = None" if "blocks \<noteq> []"
  proof -
    have ne: "0 < length textBlocks" using that len by (cases textBlocks) auto
    then have "hd blocks = blocks ! 0" "last blocks = blocks ! (length textBlocks - 1)"
      using that len by (simp_all add: hd_conv_nth last_conv_nth)
    then show ?thesis using ne by (simp add: b)
  qed
  from 1 2 show ?thesis by blast
qed

text \<open>
  Claim C5: with tree data support enabled, the blocks that \<^verbatim>\<open>processText\<close>
  returns form a doubly linked sibling chain: for every index \<open>i > 0\<close>, block
  \<open>i\<close> has block \<open>i - 1\<close>'s key as \<^verbatim>\<open>prevSibling\<close> and block \<open>i - 1\<close> has block
  \<open>i\<close>'s key as \<^verbatim>\<open>nextSibling\<close>; the first block has no \<^verbatim>\<open>prevSibling\<close> and the
  last block no \<^verbatim>\<open>nextSibling\<close>.
\<close>

theorem processText_sibling_chain:
  "\<exists>calls' blocks.
     processText True rand sanitizeDraftText calls textBlocks character ty = Inr (calls', blocks) \<and>
     length blocks = length textBlocks \<and>
     (\<forall>i. 0 < i \<and> i < length blocks \<longrightarrow>
            prevSibling (blocks ! i) = Some (key (blocks ! (i - 1))) \<and>
            nextSibling (blocks ! (i - 1)) = Some (key (blocks ! i))) \<and>
     (blocks \<noteq> [] \<longrightarrow> prevSibling (hd blocks) = None \<and> nextSibling (last blocks) = None)"
proof -
  obtain calls' blocks where
    run: "processText True rand sanitizeDraftText calls textBlocks character ty = Inr (calls', blocks)"
    and len: "length blocks = length textBlocks"
    by (simp add: processText_closed_form)
  from sibling_chain_of_result[OF run] run len show ?thesis by blast
qed

theorem processText_sibling_chain_witness:
  "\<exists>b0 b1 b2.
     processText True sample_keys id 0 [[0x61], [0x62, 0x63], []] (0::nat) [0x75] = Inr (3, [b0, b1, b2]) \<and>
     key b0 = [0x6B, 0x30] \<and> key b1 = [0x6B, 0x31] \<and> key b2 = [0x6B, 0x32] \<and>
     prevSibling b0 = None \<and> nextSibling b0 = Some (key b1) \<and>
     prevSibling b1 = Some (key b0) \<and> nextSibling b1 = Some (key b2) \<and>
     prevSibling b2 = Some (key b1) \<and> nextSibling b2 = None"
proof -
  have run: "processText True sample_keys id 0 [[0x61], [0x62, 0x63], []] (0::nat) [0x75]
     = Inr (3, [\<lparr>key = [0x6B, 0x30], type = [0x75], text_field = [0x61], characterList = [0],
                 prevSibling = None, nextSibling = Some [0x6B, 0x31]\<rparr>,
                \<lparr>key = [0x6B, 0x31], type = [0x75], text_field = [0x62, 0x63], characterList = [0, 0],
                 prevSibling = Some [0x6B, 0x30], nextSibling = Some [0x6B, 0x32]\<rparr>,
                \<lparr>key = [0x6B, 0x32], type = [0x75], text_field = [], characterList = [],
                 prevSibling = Some [0x6B, 0x31], nextSibling = None\<rparr>])"
    by (simp add: processText_def reduce_def processText_callback_def generateRandomKey_def sample_keys_def Let_def)
  from processText_sibling_chain[of sample_keys id 0 "[[0x61], [0x62, 0x63], []]" "0::nat" "[0x75]"]
  obtain calls' blocks where
    r: "processText True sample_keys id 0 [[0x61], [0x62, 0x63], []] (0::nat) [0x75] = Inr (calls', blocks)" and
    chain: "\<forall>i. 0 < i \<and> i < length blocks \<longrightarrow>
            prevSibling (blocks ! i) = Some (key (blocks ! (i - 1))) \<and>
            nextSibling (blocks ! (i - 1)) = Some (key (blocks ! i))" and
    ends: "blocks \<noteq> [] \<longrightarrow> prevSibling (hd blocks) = None \<and> nextSibling (last blocks) = None"
    by (elim exE conjE)
  have "calls' = 3 \<and> (\<exists>b0 b1 b2. blocks = [b0, b1, b2] \<and>
      key b0 = [0x6B, 0x30] \<and> key b1 = [0x6B, 0x31] \<and> key b2 = [0x6B, 0x32])"
    using r unfolding run by auto
  then obtain b0 b1 b2 where b: "blocks = [b0, b1, b2]" and c: "calls' = 3"
    and k: "key b0 = [0x6B, 0x30]" "key b1 = [0x6B, 0x31]" "key b2 = [0x6B, 0x32]"
    by (elim exE conjE)
  from chain[rule_format, of 1] have 1: "prevSibling b1 = Some (key b0)" "nextSibling b0 = Some (key b1)"
    by (simp_all add: b)
  from chain[rule_format, of 2] have 2: "prevSibling b2 = Some (key b1)" "nextSibling b1 = Some (key b2)"
    by (simp_all add: b)
  from ends have 3: "prevSibling b0 = None" "nextSibling b2 = None" by (simp_all add: b)
  show ?thesis using r b c k 1 2 3 by blast
qed

section \<open>Properties of \<^verbatim>\<open>processText\<close> on a store\<close>

lemma reduce_array_Suc:
  "reduce_array f st i (Suc n) =
     (case reduce_array f st i n of
        Inl e \<Rightarrow> Inl e
      | Inr st' \<Rightarrow>
          if i + n < length (textBlocksArray (fst st'))
          then f st' (textBlocksArray (fst st') ! (i + n)) (i + n)
          else Inr st')"
proof (induction n arbitrary: st i)
  case 0
  show ?case by (simp split: sum.splits)
next
  case (Suc n)
  show ?case
  proof (cases "i < length (textBlocksArray (fst st))")
    case True
    show ?thesis
    proof (cases "f st (textBlocksArray (fst st) ! i) i")
      case (Inl e)
      then show ?thesis using True by simp
    next
      case (Inr st')
      have "reduce_array f st i (Suc (Suc n)) = reduce_array f st' (Suc i) (Suc n)"
        using True Inr by simp
      moreover have "reduce_array f st i (Suc n) = reduce_array f st' (Suc i) n"
        using True Inr by simp
      ultimately show ?thesis by (simp only: Suc.IH add_Suc add_Suc_right)
    qed
  next
    case False
    have "reduce_array f st i (Suc (Suc n)) = reduce_array f st (Suc i) (Suc n)"
      using False by simp
    moreover have "reduce_array f st i (Suc n) = reduce_array f st (Suc i) n"
      using False by simp
    ultimately show ?thesis by (simp only: Suc.IH add_Suc add_Suc_right)
  qed
qed

lemma callback_store_flat:
  assumes "\<not> (flag \<and> index \<noteq> 0)"
  shows "processText_callback_store flag rand san ty (s, acc) line index =
     Inr (s\<lparr>keyCalls := Suc (keyCalls s),
            records := records s @
              [\<lparr>key = rand (keyCalls s), type = ty, text_field = san line,
                characterList = replicate (length (san line)) (characterObject s),
                prevSibling = None, nextSibling = None\<rparr>]\<rparr>,
          acc @ [length (records s)])"
  using assms
  by (cases flag; cases "index = 0")
     (simp_all add: processText_callback_store_def generateRandomKey_def new_record_def Let_def)

lemma callback_store_tree:
  assumes "flag" "index \<noteq> 0" "index - 1 < length acc"
  shows "processText_callback_store flag rand san ty (s, acc) line index =
     Inr (s\<lparr>keyCalls := Suc (keyCalls s),
            records := records s @
              [(records s ! (acc ! (index - 1)))\<lparr>nextSibling := Some (rand (keyCalls s))\<rparr>,
               \<lparr>key = rand (keyCalls s), type = ty, text_field = san line,
                characterList = replicate (length (san line)) (characterObject s),
                prevSibling = Some (key (records s ! (acc ! (index - 1)))), nextSibling = None\<rparr>]\<rparr>,
          acc[index - 1 := length (records s)] @ [Suc (length (records s))])"
  using assms
  by (simp add: processText_callback_store_def generateRandomKey_def new_record_def
      merge_nextSibling_def Let_def nth_append)

lemma iterations_Suc:
  "processText_iterations flag rand san ty s (Suc n) =
     (case processText_iterations flag rand san ty s n of
        Inl e \<Rightarrow> Inl e
      | Inr st' \<Rightarrow>
          if n < length (textBlocksArray (fst st'))
          then processText_callback_store flag rand san ty st' (textBlocksArray (fst st') ! n) n
          else Inr st')"
  unfolding processText_iterations_def by (simp only: reduce_array_Suc add_0)

lemma callback_store_cases:
  assumes "length acc = index"
  shows "processText_callback_store flag rand san ty (s, acc) line index =
     Inr (s\<lparr>keyCalls := Suc (keyCalls s),
            records := records s @
              (if flag \<and> index \<noteq> 0
               then [(records s ! (acc ! (index - 1)))\<lparr>nextSibling := Some (rand (keyCalls s))\<rparr>,
                     \<lparr>key = rand (keyCalls s), type = ty, text_field = san line,
                      characterList = replicate (length (san line)) (characterObject s),
                      prevSibling = Some (key (records s ! (acc ! (index - 1)))),
                      nextSibling = None\<rparr>]
               else [\<lparr>key = rand (keyCalls s), type = ty, text_field = san line,
                      characterList = replicate (length (san line)) (characterObject s),
                      prevSibling = None, nextSibling = None\<rparr>])\<rparr>,
          if flag \<and> index \<noteq> 0
          then acc[index - 1 := length (records s)] @ [Suc (length (records s))]
          else acc @ [length (records s)])"
proof (cases "flag \<and> index \<noteq> 0")
  case True
  then have "flag" "index \<noteq> 0" "index - 1 < length acc" using assms by auto
  from callback_store_tree[OF this] show ?thesis by (simp only: if_P[OF True])
next
  case False
  from callback_store_flat[OF False] show ?thesis by (simp only: if_not_P[OF False])
qed

lemma iterations_invariant:
  assumes "n \<le> length (textBlocksArray s)"
  shows "\<exists>sn accn. processText_iterations flag rand san ty s n = Inr (sn, accn) \<and>
       textBlocksArray sn = textBlocksArray s \<and> characterObject sn = characterObject s \<and>
       keyCalls sn = keyCalls s + n \<and> length accn = n \<and>
       (\<forall>j<n. accn ! j < length (records sn)) \<and>
       (\<exists>new. records sn = records s @ new)"
  using assms
proof (induction n)
  case 0
  show ?case by (simp add: processText_iterations_def)
next
  case (Suc n)
  have "n \<le> length (textBlocksArray s)" using Suc.prems by simp
  from Suc.IH[OF this] obtain sn accn where
    inv: "processText_iterations flag rand san ty s n = Inr (sn, accn) \<and>
       textBlocksArray sn = textBlocksArray s \<and> characterObject sn = characterObject s \<and>
       keyCalls sn = keyCalls s + n \<and> length accn = n \<and>
       (\<forall>j<n. accn ! j < length (records sn)) \<and>
       (\<exists>new. records sn = records s @ new)"
    by (elim exE)
  note run = inv[THEN conjunct1]
  note tb = inv[THEN conjunct2, THEN conjunct1]
  note ch = inv[THEN conjunct2, THEN conjunct2, THEN conjunct1]
  note kc = inv[THEN conjunct2, THEN conjunct2, THEN conjunct2, THEN conjunct1]
  note len = inv[THEN conjunct2, THEN conjunct2, THEN conjunct2, THEN conjunct2, THEN conjunct1]
  note valid = inv[THEN conjunct2, THEN conjunct2, THEN conjunct2, THEN conjunct2, THEN conjunct2,
    THEN conjunct1]
  from inv obtain new where ext: "records sn = records s @ new" by (elim conjE exE)
  have n: "n < length (textBlocksArray s)" using Suc.prems by simp
  let ?st = "processText_callback_store flag rand san ty (sn, accn) (textBlocksArray s ! n) n"
  have step: "processText_iterations flag rand san ty s (Suc n) = ?st"
    using run tb n by (simp add: iterations_Suc)
  show ?case
  proof (cases "flag \<and> n \<noteq> 0")
    case True
    then have "flag" "n \<noteq> 0" "n - 1 < length accn" using len by auto
    note cb = callback_store_tree[OF this, of rand san ty sn "textBlocksArray s ! n"]
    have v: "\<forall>j<Suc n. (accn[n - 1 := length (records sn)] @ [Suc (length (records sn))]) ! j
                < Suc (Suc (length (records sn)))"
    proof (intro allI impI)
      fix j assume "j < Suc n"
      then consider "j = n" | "j = n - 1" "j < n" | "j < n" "j \<noteq> n - 1" by linarith
      then show "(accn[n - 1 := length (records sn)] @ [Suc (length (records sn))]) ! j
                < Suc (Suc (length (records sn)))"
      proof cases
        case 1
        then show ?thesis using len by (simp add: nth_append)
      next
        case 2
        then show ?thesis using len by (simp add: nth_append)
      next
        case 3
        then have "accn ! j < length (records sn)" using valid by simp
        with 3 show ?thesis using len by (simp add: nth_append)
      qed
    qed
    show ?thesis
      unfolding step cb
      apply (intro exI conjI)
            apply (rule refl)
           apply (simp add: tb)
          apply (simp add: ch)
         apply (simp add: kc)
        apply (simp add: len)
       apply (use v in simp)
      apply (simp add: ext)
      done
  next
    case False
    note cb = callback_store_flat[OF False, of rand san ty sn accn "textBlocksArray s ! n"]
    have v: "\<forall>j<Suc n. (accn @ [length (records sn)]) ! j < Suc (length (records sn))"
    proof (intro allI impI)
      fix j assume "j < Suc n"
      then consider "j = n" | "j < n" by linarith
      then show "(accn @ [length (records sn)]) ! j < Suc (length (records sn))"
      proof cases
        case 1
        then show ?thesis using len by (simp add: nth_append)
      next
        case 2
        then have "accn ! j < length (records sn)" using valid by simp
        with 2 show ?thesis using len by (simp add: nth_append)
      qed
    qed
    show ?thesis
      unfolding step cb
      apply (intro exI conjI)
            apply (rule refl)
           apply (simp add: tb)
          apply (simp add: ch)
         apply (simp add: kc)
        apply (simp add: len)
       apply (use v in simp)
      apply (simp add: ext)
      done
  qed
qed

lemma iterations_state:
  assumes "processText_iterations flag rand san ty s n = Inr (sn, accn)"
    and "n \<le> length (textBlocksArray s)"
  shows "textBlocksArray sn = textBlocksArray s" "characterObject sn = characterObject s"
    "keyCalls sn = keyCalls s + n" "length accn = n"
    "\<forall>j<n. accn ! j < length (records sn)"
    "\<exists>new. records sn = records s @ new"
proof -
  from iterations_invariant[OF assms(2), of flag rand san ty] obtain sn' accn' where
    inv: "processText_iterations flag rand san ty s n = Inr (sn', accn') \<and>
       textBlocksArray sn' = textBlocksArray s \<and> characterObject sn' = characterObject s \<and>
       keyCalls sn' = keyCalls s + n \<and> length accn' = n \<and>
       (\<forall>j<n. accn' ! j < length (records sn')) \<and>
       (\<exists>new. records sn' = records s @ new)"
    by (elim exE)
  then have "sn' = sn" "accn' = accn" using assms(1) by simp_all
  with inv show "textBlocksArray sn = textBlocksArray s" "characterObject sn = characterObject s"
    "keyCalls sn = keyCalls s + n" "length accn = n"
    "\<forall>j<n. accn ! j < length (records sn)"
    "\<exists>new. records sn = records s @ new"
    by blast+
qed

lemma iterations_next:
  assumes run: "processText_iterations flag rand san ty s n = Inr (sn, accn)"
    and n: "n < length (textBlocksArray s)"
  shows "processText_iterations flag rand san ty s (Suc n) =
     Inr (sn\<lparr>keyCalls := Suc (keyCalls sn),
            records := records sn @
              (if flag \<and> n \<noteq> 0
               then [(records sn ! (accn ! (n - 1)))\<lparr>nextSibling := Some (rand (keyCalls sn))\<rparr>,
                     \<lparr>key = rand (keyCalls sn), type = ty, text_field = san (textBlocksArray s ! n),
                      characterList = replicate (length (san (textBlocksArray s ! n))) (characterObject s),
                      prevSibling = Some (key (records sn ! (accn ! (n - 1)))),
                      nextSibling = None\<rparr>]
               else [\<lparr>key = rand (keyCalls sn), type = ty, text_field = san (textBlocksArray s ! n),
                      characterList = replicate (length (san (textBlocksArray s ! n))) (characterObject s),
                      prevSibling = None, nextSibling = None\<rparr>])\<rparr>,
          if flag \<and> n \<noteq> 0
          then accn[n - 1 := length (records sn)] @ [Suc (length (records sn))]
          else accn @ [length (records sn)])"
proof -
  have le: "n \<le> length (textBlocksArray s)" using n by simp
  note st = iterations_state[OF run le]
  have "processText_iterations flag rand san ty s (Suc n) =
      processText_callback_store flag rand san ty (sn, accn) (textBlocksArray s ! n) n"
    using run st(1) n by (simp add: iterations_Suc)
  also note callback_store_cases[OF st(4), of flag rand san ty sn "textBlocksArray s ! n"]
  finally show ?thesis by (simp only: st(2))
qed

lemma iterations_later:
  assumes m: "processText_iterations flag rand san ty s m = Inr (sm, accm)"
    and mn: "m \<le> n" and n: "n \<le> length (textBlocksArray s)"
  shows "\<exists>sn accn X. processText_iterations flag rand san ty s n = Inr (sn, accn) \<and>
           records sn = records sm @ X \<and>
           (flag \<and> 0 < m \<and> m < n \<longrightarrow>
              accn ! (m - 1) = length (records sm) \<and> X \<noteq> [] \<and>
              X ! 0 = (records sm ! (accm ! (m - 1)))\<lparr>nextSibling := Some (rand (keyCalls sm))\<rparr>)"
  using mn n
proof (induction n rule: dec_induct)
  case base
  show ?case using m by simp
next
  case (step k)
  have k: "k < length (textBlocksArray s)" "k \<le> length (textBlocksArray s)" using step.prems by simp_all
  from step.IH[OF k(2)] obtain sk acck X where
    runk: "processText_iterations flag rand san ty s k = Inr (sk, acck)" and
    ext: "records sk = records sm @ X" and
    old: "flag \<and> 0 < m \<and> m < k \<longrightarrow>
              acck ! (m - 1) = length (records sm) \<and> X \<noteq> [] \<and>
              X ! 0 = (records sm ! (accm ! (m - 1)))\<lparr>nextSibling := Some (rand (keyCalls sm))\<rparr>"
    by (elim exE conjE)
  note nxt = iterations_next[OF runk k(1)]
  note stk = iterations_state[OF runk k(2)]
  let ?Y = "if flag \<and> k \<noteq> 0
               then [(records sk ! (acck ! (k - 1)))\<lparr>nextSibling := Some (rand (keyCalls sk))\<rparr>,
                     \<lparr>key = rand (keyCalls sk), type = ty, text_field = san (textBlocksArray s ! k),
                      characterList = replicate (length (san (textBlocksArray s ! k))) (characterObject s),
                      prevSibling = Some (key (records sk ! (acck ! (k - 1)))),
                      nextSibling = None\<rparr>]
               else [\<lparr>key = rand (keyCalls sk), type = ty, text_field = san (textBlocksArray s ! k),
                      characterList = replicate (length (san (textBlocksArray s ! k))) (characterObject s),
                      prevSibling = None, nextSibling = None\<rparr>]"
  let ?acc = "if flag \<and> k \<noteq> 0
          then acck[k - 1 := length (records sk)] @ [Suc (length (records sk))]
          else acck @ [length (records sk)]"
  have fresh: "?acc ! (m - 1) = length (records sm) \<and> X @ ?Y \<noteq> [] \<and>
      (X @ ?Y) ! 0 = (records sm ! (accm ! (m - 1)))\<lparr>nextSibling := Some (rand (keyCalls sm))\<rparr>"
    if f: "flag" and m0: "0 < m" and mk: "m < Suc k"
  proof (cases "m = k")
    case True
    then have same: "sk = sm" "acck = accm" using runk m by simp_all
    then have X: "X = []" using ext by simp
    have "k \<noteq> 0" "k - 1 < length acck" using True m0 stk(4) by simp_all
    then show ?thesis using f True same X by (simp add: nth_append)
  next
    case False
    then have lt: "m < k" using mk by simp
    then have o: "acck ! (m - 1) = length (records sm)" "X \<noteq> []"
      "X ! 0 = (records sm ! (accm ! (m - 1)))\<lparr>nextSibling := Some (rand (keyCalls sm))\<rparr>"
      using old f m0 by simp_all
    have "k \<noteq> 0" "m - 1 \<noteq> k - 1" "m - 1 < length acck" using lt m0 stk(4) by simp_all
    then show ?thesis using f o by (simp add: nth_append)
  qed
  show ?case
    unfolding nxt
    apply (rule exI, rule exI, rule exI[of _ "X @ ?Y"])
    apply (intro conjI)
      apply (rule refl)
     apply (simp add: ext)
    apply (rule impI)
    apply (elim conjE)
    apply (rule fresh)
      apply assumption+
    done
qed

text \<open>
  The two models agree: the records behind the references that
  \<^verbatim>\<open>processText\<close> returns on a store are the blocks that it returns by value.
\<close>

lemma deref_extended:
  assumes "\<forall>j<length acc. acc ! j < length h"
  shows "map ((!) (h @ new)) acc = map ((!) h) acc"
  using assms by (auto simp: list_eq_iff_nth_eq nth_append)

lemma iterations_refine:
  assumes "n \<le> length (textBlocksArray s)"
  shows "\<exists>sn accn. processText_iterations flag rand san ty s n = Inr (sn, accn) \<and>
           processText flag rand san (keyCalls s) (take n (textBlocksArray s)) (characterObject s) ty =
             Inr (keyCalls sn, map ((!) (records sn)) accn)"
  using assms
proof (induction n)
  case 0
  show ?case by (simp add: processText_iterations_def processText_def reduce_def)
next
  case (Suc n)
  have k: "n < length (textBlocksArray s)" "n \<le> length (textBlocksArray s)"
    using Suc.prems by simp_all
  from Suc.IH[OF k(2)] obtain sn accn where
    run: "processText_iterations flag rand san ty s n = Inr (sn, accn)" and
    val: "processText flag rand san (keyCalls s) (take n (textBlocksArray s)) (characterObject s) ty =
             Inr (keyCalls sn, map ((!) (records sn)) accn)"
    by (elim exE conjE)
  note nxt = iterations_next[OF run k(1)]
  note st = iterations_state[OF run k(2)]
  let ?line = "textBlocksArray s ! n"
  have valid: "\<forall>j<length accn. accn ! j < length (records sn)" using st(4,5) by simp
  have tk: "take (Suc n) (textBlocksArray s) = take n (textBlocksArray s) @ [?line]"
    using k(1) by (rule take_Suc_conv_app_nth)
  have lt: "length (take n (textBlocksArray s)) = n" using k(2) by simp
  have v: "processText flag rand san (keyCalls s) (take (Suc n) (textBlocksArray s)) (characterObject s) ty =
      processText_callback flag rand san (characterObject s) ty
        (keyCalls sn, map ((!) (records sn)) accn) ?line n"
    using val unfolding tk processText_def reduce_def reduce_from_snoc lt by simp
  show ?case
  proof (cases "flag \<and> n \<noteq> 0")
    case True
    then have c: "flag" "n \<noteq> 0" "n - 1 < length (map ((!) (records sn)) accn)"
      using st(4) by simp_all
    have n1: "n - 1 < length accn" using c(2) st(4) by simp
    let ?new = "[(records sn ! (accn ! (n - 1)))\<lparr>nextSibling := Some (rand (keyCalls sn))\<rparr>,
                     \<lparr>key = rand (keyCalls sn), type = ty, text_field = san ?line,
                      characterList = replicate (length (san ?line)) (characterObject s),
                      prevSibling = Some (key (records sn ! (accn ! (n - 1)))),
                      nextSibling = None\<rparr>]"
    have d: "map ((!) (records sn @ ?new)) (accn[n - 1 := length (records sn)] @ [Suc (length (records sn))]) =
        (map ((!) (records sn)) accn)[n - 1 := (records sn ! (accn ! (n - 1)))\<lparr>nextSibling := Some (rand (keyCalls sn))\<rparr>] @
        [\<lparr>key = rand (keyCalls sn), type = ty, text_field = san ?line,
                      characterList = replicate (length (san ?line)) (characterObject s),
                      prevSibling = Some (key (records sn ! (accn ! (n - 1)))),
                      nextSibling = None\<rparr>]"
      using n1 valid
      by (simp add: map_update deref_extended[OF valid] nth_append_length[of "records sn", simplified]
          nth_append)
    show ?thesis
      unfolding nxt[unfolded if_P[OF True]] v callback_tree[OF c]
      apply (intro exI conjI)
       apply (rule refl)
      using n1 d apply simp
      done
  next
    case False
    have d: "map ((!) (records sn @ [b])) (accn @ [length (records sn)]) =
        map ((!) (records sn)) accn @ [b]" for b
      by (simp add: deref_extended[OF valid])
    show ?thesis
      unfolding nxt[unfolded if_not_P[OF False]] v callback_flat[OF False]
      apply (intro exI conjI)
       apply (rule refl)
      apply (simp add: deref_extended[OF valid])
      done
  qed
qed

lemma processText_store_refines:
  "\<exists>s' acc. processText_store flag rand san ty s = Inr (s', acc) \<and>
     processText flag rand san (keyCalls s) (textBlocksArray s) (characterObject s) ty =
       Inr (keyCalls s', map ((!) (records s')) acc)"
  using iterations_refine[of "length (textBlocksArray s)" s flag rand san ty]
  by (simp add: processText_store_def)

lemma iterations_frame:
  assumes mn: "m \<le> n" and n: "n \<le> length (textBlocksArray s)"
  shows "\<exists>sm accm sn accn.
         processText_iterations flag rand san ty s m = Inr (sm, accm) \<and>
         processText_iterations flag rand san ty s n = Inr (sn, accn) \<and>
         textBlocksArray sn = textBlocksArray s \<and> characterObject sn = characterObject s \<and>
         take (length (records s)) (records sn) = records s \<and>
         take (length (records sm)) (records sn) = records sm \<and>
         (\<forall>j<m. records sn ! (accm ! j) = records sm ! (accm ! j)) \<and>
         (flag \<and> 0 < m \<and> m < n \<longrightarrow>
            accn ! (m - 1) \<noteq> accm ! (m - 1) \<and>
            length (records sm) \<le> accn ! (m - 1) \<and>
            records sn ! (accn ! (m - 1)) =
              (records sm ! (accm ! (m - 1)))\<lparr>nextSibling := Some (rand (keyCalls s + m))\<rparr>)"
proof -
  have m: "m \<le> length (textBlocksArray s)" using mn n by simp
  from iterations_invariant[OF m, of flag rand san ty] obtain sm accm where
    runm: "processText_iterations flag rand san ty s m = Inr (sm, accm)"
    by (elim exE conjE)
  note stm = iterations_state[OF runm m]
  from iterations_later[OF runm mn n] obtain sn accn X where
    runn: "processText_iterations flag rand san ty s n = Inr (sn, accn)" and
    ext: "records sn = records sm @ X" and
    fresh: "flag \<and> 0 < m \<and> m < n \<longrightarrow>
              accn ! (m - 1) = length (records sm) \<and> X \<noteq> [] \<and>
              X ! 0 = (records sm ! (accm ! (m - 1)))\<lparr>nextSibling := Some (rand (keyCalls sm))\<rparr>"
    by (elim exE conjE)
  note stn = iterations_state[OF runn n]
  from stn(6) obtain new where new: "records sn = records s @ new" ..
  have old: "\<forall>j<m. records sn ! (accm ! j) = records sm ! (accm ! j)"
    using stm(5) by (simp add: ext nth_append)
  have upd: "accn ! (m - 1) \<noteq> accm ! (m - 1) \<and>
            length (records sm) \<le> accn ! (m - 1) \<and>
            records sn ! (accn ! (m - 1)) =
              (records sm ! (accm ! (m - 1)))\<lparr>nextSibling := Some (rand (keyCalls s + m))\<rparr>"
    if c: "flag \<and> 0 < m \<and> m < n"
  proof -
    from fresh c have f: "accn ! (m - 1) = length (records sm)" "X \<noteq> []"
      "X ! 0 = (records sm ! (accm ! (m - 1)))\<lparr>nextSibling := Some (rand (keyCalls sm))\<rparr>"
      by simp_all
    have "m - 1 < m" using c by simp
    then have "accm ! (m - 1) < length (records sm)" using stm(5) by blast
    then show ?thesis using f stm(3) by (simp add: ext nth_append)
  qed
  show ?thesis
    apply (rule exI[of _ sm], rule exI[of _ accm], rule exI[of _ sn], rule exI[of _ accn])
    apply (intro conjI)
           apply (rule runm)
          apply (rule runn)
         apply (rule stn(1))
        apply (rule stn(2))
       apply (simp add: new)
      apply (simp add: ext)
     apply (rule old)
    apply (rule impI)
    apply (erule upd)
    done
qed

text \<open>
  Claim C2: \<^verbatim>\<open>processText\<close> never writes its \<^verbatim>\<open>textBlocks\<close> array, the
  \<^verbatim>\<open>character\<close> object or a block record that exists already. The call
  returns, and leaves the array, the character and every record of the store
  as they were. At every iteration \<open>n\<close>, the array, the character and every
  record that existed after an earlier iteration \<open>m\<close> (those of the
  accumulator among them) are unchanged. With tree data support, once the
  iteration \<open>m > 0\<close> has updated the previous block's \<^verbatim>\<open>nextSibling\<close>, the
  accumulator's place \<open>m - 1\<close> holds a reference that did not exist before, to
  a record that is the previous one with the new \<^verbatim>\<open>nextSibling\<close>; the previous
  record is still as it was.
\<close>

theorem processText_store_never_mutates:
  "(\<exists>s' acc. processText_store flag rand sanitizeDraftText ty s = Inr (s', acc) \<and>
        textBlocksArray s' = textBlocksArray s \<and> characterObject s' = characterObject s \<and>
        take (length (records s)) (records s') = records s) \<and>
   (\<forall>m n. m \<le> n \<and> n \<le> length (textBlocksArray s) \<longrightarrow>
      (\<exists>sm accm sn accn.
         processText_iterations flag rand sanitizeDraftText ty s m = Inr (sm, accm) \<and>
         processText_iterations flag rand sanitizeDraftText ty s n = Inr (sn, accn) \<and>
         textBlocksArray sn = textBlocksArray s \<and> characterObject sn = characterObject s \<and>
         take (length (records s)) (records sn) = records s \<and>
         take (length (records sm)) (records sn) = records sm \<and>
         (\<forall>j<m. records sn ! (accm ! j) = records sm ! (accm ! j)) \<and>
         (flag \<and> 0 < m \<and> m < n \<longrightarrow>
            accn ! (m - 1) \<noteq> accm ! (m - 1) \<and>
            length (records sm) \<le> accn ! (m - 1) \<and>
            records sn ! (accn ! (m - 1)) =
              (records sm ! (accm ! (m - 1)))\<lparr>nextSibling := Some (rand (keyCalls s + m))\<rparr>)))"
proof (intro conjI allI impI)
  from iterations_frame[of 0 "length (textBlocksArray s)" s flag rand sanitizeDraftText ty]
  show "\<exists>s' acc. processText_store flag rand sanitizeDraftText ty s = Inr (s', acc) \<and>
        textBlocksArray s' = textBlocksArray s \<and> characterObject s' = characterObject s \<and>
        take (length (records s)) (records s') = records s"
    unfolding processText_store_def by blast
next
  fix m n assume "m \<le> n \<and> n \<le> length (textBlocksArray s)"
  then have "m \<le> n" "n \<le> length (textBlocksArray s)" by simp_all
  then show "\<exists>sm accm sn accn.
         processText_iterations flag rand sanitizeDraftText ty s m = Inr (sm, accm) \<and>
         processText_iterations flag rand sanitizeDraftText ty s n = Inr (sn, accn) \<and>
         textBlocksArray sn = textBlocksArray s \<and> characterObject sn = characterObject s \<and>
         take (length (records s)) (records sn) = records s \<and>
         take (length (records sm)) (records sn) = records sm \<and>
         (\<forall>j<m. records sn ! (accm ! j) = records sm ! (accm ! j)) \<and>
         (flag \<and> 0 < m \<and> m < n \<longrightarrow>
            accn ! (m - 1) \<noteq> accm ! (m - 1) \<and>
            length (records sm) \<le> accn ! (m - 1) \<and>
            records sn ! (accn ! (m - 1)) =
              (records sm ! (accm ! (m - 1)))\<lparr>nextSibling := Some (rand (keyCalls s + m))\<rparr>)"
    by (rule iterations_frame)
qed

theorem processText_store_never_mutates_witness:
  "\<exists>sm accm sn accn.
     processText_iterations True sample_keys id [0x75] sample_store 1 = Inr (sm, accm) \<and>
     processText_store True sample_keys id [0x75] sample_store = Inr (sn, accn) \<and>
     textBlocksArray sn = [[0x61], [0x62, 0x63], []] \<and> characterObject sn = 0 \<and>
     take (length (records sm)) (records sn) = records sm \<and>
     records sn ! (accm ! 0) = records sm ! (accm ! 0) \<and>
     accn ! 0 \<noteq> accm ! 0 \<and>
     records sn ! (accn ! 0) = (records sm ! (accm ! 0))\<lparr>nextSibling := Some [0x6B, 0x31]\<rparr>"
proof -
  have len: "length (textBlocksArray sample_store) = 3" by (simp add: sample_store_def)
  have h: "1 \<le> (3::nat) \<and> 3 \<le> length (textBlocksArray sample_store)" by (simp add: len)
  from processText_store_never_mutates[of True sample_keys id "[0x75]" sample_store,
      THEN conjunct2, rule_format, OF h]
  obtain sm accm sn accn where
    r: "processText_iterations True sample_keys id [0x75] sample_store 1 = Inr (sm, accm)"
       "processText_iterations True sample_keys id [0x75] sample_store 3 = Inr (sn, accn)"
       "textBlocksArray sn = textBlocksArray sample_store" "characterObject sn = characterObject sample_store"
       "take (length (records sm)) (records sn) = records sm"
       "\<forall>j<1. records sn ! (accm ! j) = records sm ! (accm ! j)"
       "True \<and> 0 < (1::nat) \<and> (1::nat) < 3 \<longrightarrow>
            accn ! (1 - 1) \<noteq> accm ! (1 - 1) \<and>
            length (records sm) \<le> accn ! (1 - 1) \<and>
            records sn ! (accn ! (1 - 1)) =
              (records sm ! (accm ! (1 - 1)))\<lparr>nextSibling := Some (sample_keys (keyCalls sample_store + 1))\<rparr>"
    by (elim exE conjE)
  have a: "processText_store True sample_keys id [0x75] sample_store = Inr (sn, accn)"
    using r(2) by (simp add: processText_store_def len)
  have b: "textBlocksArray sn = [[0x61], [0x62, 0x63], []]" "characterObject sn = 0"
    using r(3,4) by (simp_all add: sample_store_def)
  have c: "records sn ! (accm ! 0) = records sm ! (accm ! 0)" using r(6) by simp
  have d: "accn ! 0 \<noteq> accm ! 0"
    "records sn ! (accn ! 0) = (records sm ! (accm ! 0))\<lparr>nextSibling := Some [0x6B, 0x31]\<rparr>"
    using r(7) by (simp_all add: sample_store_def sample_keys_def)
  show ?thesis
    using r(1) a b r(5) c d by blast
qed

section \<open>Properties of \<^verbatim>\<open>processHTML\<close>\<close>

text \<open>
  Claim C6: for every HTML string, \<^verbatim>\<open>processHTML\<close> returns exactly what
  \<^verbatim>\<open>convertFromHTMLtoContentBlocks\<close> returns on that string with
  \<^verbatim>\<open>getSafeBodyFromHTML\<close>, the render map and the post-processor. The result is
  absent exactly when the converter's result is absent, and it has an absent
  \<^verbatim>\<open>contentBlocks\<close> field exactly when the converter's result has: both cases
  reach the caller.
\<close>

theorem processHTML_returns_converter_result:
  "processHTML convertFromHTMLtoContentBlocks getSafeBodyFromHTML html blockRenderMap postProcessInlineTag =
     convertFromHTMLtoContentBlocks html getSafeBodyFromHTML blockRenderMap postProcessInlineTag \<and>
   (processHTML convertFromHTMLtoContentBlocks getSafeBodyFromHTML html blockRenderMap postProcessInlineTag = None
      \<longleftrightarrow> convertFromHTMLtoContentBlocks html getSafeBodyFromHTML blockRenderMap postProcessInlineTag = None) \<and>
   ((\<exists>r. processHTML convertFromHTMLtoContentBlocks getSafeBodyFromHTML html blockRenderMap postProcessInlineTag = Some r
          \<and> contentBlocks r = None)
      \<longleftrightarrow> (\<exists>r. convertFromHTMLtoContentBlocks html getSafeBodyFromHTML blockRenderMap postProcessInlineTag = Some r
          \<and> contentBlocks r = None))"
  by (simp add: processHTML_def)

theorem processHTML_returns_converter_result_witness:
  "processHTML (\<lambda>html g m p. if html = [] then None else Some \<lparr>contentBlocks = None, entityMap = 0\<rparr>)
      (0::nat) [] None None = (None :: nat HTMLResult option) \<and>
   processHTML (\<lambda>html g m p. if html = [] then None else Some \<lparr>contentBlocks = None, entityMap = 0\<rparr>)
      (0::nat) [0x3C, 0x3E] None None = Some (\<lparr>contentBlocks = None, entityMap = 0\<rparr> :: nat HTMLResult)"
  using processHTML_returns_converter_result
    [of "\<lambda>html g m p. if html = [] then None else Some (\<lparr>contentBlocks = None, entityMap = 0\<rparr> :: nat HTMLResult)"
        "0::nat" "[]" None None]
    processHTML_returns_converter_result
    [of "\<lambda>html g m p. if html = [] then None else Some (\<lparr>contentBlocks = None, entityMap = 0\<rparr> :: nat HTMLResult)"
        "0::nat" "[0x3C, 0x3E]" None None]
  by simp

section \<open>Properties of \<^verbatim>\<open>editOnDragOver\<close>\<close>

text \<open>
  Claim C7: \<^verbatim>\<open>editOnDragOver\<close> leaves the editor as \<^verbatim>\<open>setMode('drag')\<close> leaves it
  and the event with its default action prevented, and changes nothing else.
  In particular the handler does not reset \<^verbatim>\<open>_internalDrag\<close>: the field has
  after the handler the value that it has after \<^verbatim>\<open>setMode('drag')\<close>, which is
  its value before whenever \<^verbatim>\<open>setMode\<close> does not write it.
\<close>

theorem editOnDragOver_effect:
  "editOnDragOver setMode ed e = (setMode ''drag'' ed, e\<lparr>defaultPrevented := True\<rparr>) \<and>
   defaultPrevented (snd (editOnDragOver setMode ed e)) \<and>
   (internalDrag (setMode ''drag'' ed) = internalDrag ed \<longrightarrow>
      internalDrag (fst (editOnDragOver setMode ed e)) = internalDrag ed)"
  by (simp add: editOnDragOver_def preventDefault_def)

theorem editOnDragOver_effect_witness:
  "editOnDragOver (\<lambda>m ed. ed\<lparr>DraftEditor.more := m\<rparr>) \<lparr>internalDrag = True, \<dots> = ''edit''\<rparr>
      \<lparr>defaultPrevented = False\<rparr>
     = (\<lparr>internalDrag = True, \<dots> = ''drag''\<rparr>, \<lparr>defaultPrevented = True\<rparr>)"
  using editOnDragOver_effect
    [of "\<lambda>m ed. ed\<lparr>DraftEditor.more := m\<rparr>" "\<lparr>internalDrag = True, \<dots> = ''edit''\<rparr>"
        "\<lparr>defaultPrevented = False\<rparr>"]
  by simp

section \<open>Properties of \<^verbatim>\<open>DraftEditorBlock\<close>\<close>

text \<open>
  Claim C8: \<^verbatim>\<open>shouldComponentUpdate\<close> returns true if and only if the next
  props' block, tree or direction differs from the current one (block and
  tree by reference), or the next selection's anchor key or focus key is the
  block's key and the next props' \<^verbatim>\<open>forceSelection\<close> is true. The block's key
  may be read from the next or from the current block. Consequently, with
  identical block, tree and direction and \<^verbatim>\<open>forceSelection\<close> false, it returns
  false.
\<close>

theorem shouldComponentUpdate_iff:
  "(shouldComponentUpdate objs props nextProps \<longleftrightarrow>
      (block nextProps \<noteq> block props \<or> tree nextProps \<noteq> tree props \<or>
       direction nextProps \<noteq> direction props) \<or>
      ((getAnchorKey (selection nextProps) = key (blockAt objs (block nextProps)) \<or>
        getFocusKey (selection nextProps) = key (blockAt objs (block nextProps))) \<and>
       forceSelection nextProps)) \<and>
   (shouldComponentUpdate objs props nextProps \<longleftrightarrow>
      (block nextProps \<noteq> block props \<or> tree nextProps \<noteq> tree props \<or>
       direction nextProps \<noteq> direction props) \<or>
      ((getAnchorKey (selection nextProps) = key (blockAt objs (block props)) \<or>
        getFocusKey (selection nextProps) = key (blockAt objs (block props))) \<and>
       forceSelection nextProps)) \<and>
   (block nextProps = block props \<and> tree nextProps = tree props \<and>
    direction nextProps = direction props \<and> \<not> forceSelection nextProps \<longrightarrow>
      \<not> shouldComponentUpdate objs props nextProps)"
  by (auto simp: shouldComponentUpdate_def isBlockOnSelectionEdge_def)

theorem shouldComponentUpdate_iff_witness:
  "\<not> shouldComponentUpdate sample_objects sample_props sample_props \<and>
   shouldComponentUpdate sample_objects sample_props (sample_props\<lparr>forceSelection := True\<rparr>) \<and>
   shouldComponentUpdate sample_objects sample_props (sample_props\<lparr>tree := 8\<rparr>)"
  using shouldComponentUpdate_iff [of sample_objects sample_props sample_props]
    shouldComponentUpdate_iff [of sample_objects sample_props "sample_props\<lparr>forceSelection := True\<rparr>"]
    shouldComponentUpdate_iff [of sample_objects sample_props "sample_props\<lparr>tree := 8\<rparr>"]
  by (simp add: shouldComponentUpdate_def isBlockOnSelectionEdge_def sample_objects_def sample_props_def sample_selection_def
      sample_block_def)

lemma throwing_map_Inr:
  "throwing_map f xs = Inr ys \<longleftrightarrow> map f xs = map Inr ys"
proof (induction xs arbitrary: ys)
  case Nil
  show ?case by auto
next
  case (Cons x xs)
  show ?case
  proof (cases "f x")
    case (Inl e)
    then show ?thesis by (cases ys) auto
  next
    case (Inr y)
    show ?thesis
    proof (cases "throwing_map f xs")
      case (Inl e)
      have "map f xs \<noteq> map Inr zs" for zs
        using Cons.IH[of zs] Inl by simp
      then show ?thesis using Inr Inl by (cases ys) auto
    next
      case r: (Inr zs)
      then have "map f xs = map Inr zs" using Cons.IH by simp
      then show ?thesis using Inr r by (cases ys) (auto simp: inj_map_eq_map[OF inj_Inr])
    qed
  qed
qed

lemma throwing_map_nth:
  assumes "throwing_map f xs = Inr ys"
  shows "length ys = length xs" and "i < length xs \<Longrightarrow> f (xs ! i) = Inr (ys ! i)"
proof -
  have m: "map f xs = map Inr ys" using assms by (simp add: throwing_map_Inr)
  then show l: "length ys = length xs" by (metis length_map)
  show "f (xs ! i) = Inr (ys ! i)" if "i < length xs"
    using m l that by (metis nth_map)
qed

lemma throwing_map_total:
  "(\<And>x. x \<in> set xs \<Longrightarrow> \<exists>y. f x = Inr y) \<Longrightarrow> \<exists>ys. throwing_map f xs = Inr ys"
  by (induction xs) (fastforce split: sum.splits)+

lemma map_enumerate_snd:
  "map (\<lambda>(j, x). g x) (enumerate n xs) = map g xs"
  by (induction xs arbitrary: n) simp_all

lemma renderLeafSet_bare:
  assumes "decoratorKey leafSet = None \<or> decorator props = None \<or>
           (\<exists>k dec. decoratorKey leafSet = Some k \<and> decorator props = Some dec \<and>
              getComponentForKey dec k = None)"
  shows "renderLeafSet lib b props hasSelection lastLeafSet ii leafSet =
         Inr (Leaves (map (\<lambda>(jj, leaf). renderLeaf lib b props hasSelection lastLeafSet
                              (int (length (leaves leafSet)) - 1) ii jj leaf)
                        (enumerate 0 (leaves leafSet))))"
proof (cases "decoratorKey leafSet")
  case None
  then show ?thesis by (simp add: renderLeafSet_def Let_def)
next
  case k: (Some k)
  show ?thesis
  proof (cases "decorator props")
    case None
    then show ?thesis using k by (simp add: renderLeafSet_def Let_def)
  next
    case (Some dec)
    then have "getComponentForKey dec k = None" using assms k by auto
    then show ?thesis using k Some by (simp add: renderLeafSet_def Let_def)
  qed
qed

lemma renderLeafSet_throws:
  assumes "decoratorKey leafSet = Some k" "decorator props = Some dec"
    "getComponentForKey dec k = Some cmp" "leaves leafSet = []"
  shows "renderLeafSet lib b props hasSelection lastLeafSet ii leafSet = Inl TypeError"
  using assms by (simp add: renderLeafSet_def Let_def)

lemma renderLeafSet_decorated:
  assumes "decoratorKey leafSet = Some k" "decorator props = Some dec"
    "getComponentForKey dec k = Some cmp" "leaves leafSet \<noteq> []"
  shows "\<exists>d. renderLeafSet lib b props hasSelection lastLeafSet ii leafSet = Inr (Decorated d) \<and>
           component d = cmp \<and>
           decoratedText d = js_slice (text_field b) (leaf_start (hd (leaves leafSet)))
                               (leaf_end (last (leaves leafSet))) \<and>
           children d = map (\<lambda>(jj, leaf). renderLeaf lib b props hasSelection lastLeafSet
                              (int (length (leaves leafSet)) - 1) ii jj leaf)
                          (enumerate 0 (leaves leafSet))"
  using assms by (simp add: renderLeafSet_def Let_def)

lemma renderLeaf_texts:
  "map leafText (map (\<lambda>(jj, leaf). renderLeaf lib b props hasSelection lastLeafSet lastLeaf ii jj leaf)
            (enumerate n ls)) =
   map (\<lambda>l. js_slice (text_field b) (leaf_start l) (leaf_end l)) ls"
  by (induction ls arbitrary: n) (simp_all add: renderLeaf_def Let_def)

lemma renderLeafSet_cases:
  obtains (bare) "decoratorKey leafSet = None \<or> decorator props = None \<or>
           (\<exists>k dec. decoratorKey leafSet = Some k \<and> decorator props = Some dec \<and>
              getComponentForKey dec k = None)"
  | (wrap) k dec cmp where "decoratorKey leafSet = Some k" "decorator props = Some dec"
           "getComponentForKey dec k = Some cmp"
proof (cases "decoratorKey leafSet")
  case None
  then show ?thesis using bare by blast
next
  case k: (Some k)
  show ?thesis
  proof (cases "decorator props")
    case None
    then show ?thesis using bare by blast
  next
    case dec: (Some dec)
    show ?thesis
    proof (cases "getComponentForKey dec k")
      case None
      then show ?thesis using bare k dec by blast
    next
      case (Some cmp)
      then show ?thesis using wrap k dec by blast
    qed
  qed
qed

lemma renderLeafSet_leaf_texts:
  assumes "renderLeafSet lib b props hasSelection lastLeafSet ii leafSet = Inr r"
  shows "map leafText (renderedLeaves r) =
         map (\<lambda>l. js_slice (text_field b) (leaf_start l) (leaf_end l)) (leaves leafSet)"
proof (cases rule: renderLeafSet_cases[of leafSet props])
  case bare
  from renderLeafSet_bare[OF bare, of lib b hasSelection lastLeafSet ii] assms
  have "r = Leaves (map (\<lambda>(jj, leaf). renderLeaf lib b props hasSelection lastLeafSet
                              (int (length (leaves leafSet)) - 1) ii jj leaf)
                        (enumerate 0 (leaves leafSet)))"
    by simp
  then show ?thesis by (simp only: renderedLeaves.simps renderLeaf_texts)
next
  case (wrap k dec cmp)
  show ?thesis
  proof (cases "leaves leafSet = []")
    case True
    from renderLeafSet_throws[OF wrap True, of lib b hasSelection lastLeafSet ii] assms
    show ?thesis by simp
  next
    case False
    from renderLeafSet_decorated[OF wrap False, of lib b hasSelection lastLeafSet ii] assms
    obtain d where "r = Decorated d" "children d = map (\<lambda>(jj, leaf). renderLeaf lib b props hasSelection lastLeafSet
                              (int (length (leaves leafSet)) - 1) ii jj leaf)
                          (enumerate 0 (leaves leafSet))"
      by auto
    then show ?thesis by (simp only: renderedLeaves.simps renderLeaf_texts)
  qed
qed

lemma renderLeafSet_decorated_iff:
  assumes "renderLeafSet lib b props hasSelection lastLeafSet ii leafSet = Inr r"
  shows "(\<exists>d. r = Decorated d) \<longleftrightarrow>
         (\<exists>k dec cmp. decoratorKey leafSet = Some k \<and> decorator props = Some dec \<and>
            getComponentForKey dec k = Some cmp)"
proof (cases rule: renderLeafSet_cases[of leafSet props])
  case bare
  from renderLeafSet_bare[OF bare, of lib b hasSelection lastLeafSet ii] assms
  have "\<nexists>d. r = Decorated d" by auto
  moreover have "\<nexists>k dec cmp. decoratorKey leafSet = Some k \<and> decorator props = Some dec \<and>
            getComponentForKey dec k = Some cmp"
    using bare by auto
  ultimately show ?thesis by blast
next
  case (wrap k dec cmp)
  show ?thesis
  proof (cases "leaves leafSet = []")
    case True
    from renderLeafSet_throws[OF wrap True, of lib b hasSelection lastLeafSet ii] assms
    show ?thesis by simp
  next
    case False
    from renderLeafSet_decorated[OF wrap False, of lib b hasSelection lastLeafSet ii] assms
    have "\<exists>d. r = Decorated d" by auto
    then show ?thesis using wrap by blast
  qed
qed

lemma renderLeafSet_decoratedText:
  assumes "renderLeafSet lib b props hasSelection lastLeafSet ii leafSet = Inr (Decorated d)"
  shows "leaves leafSet \<noteq> [] \<and>
         decoratedText d = js_slice (text_field b) (leaf_start (hd (leaves leafSet)))
                             (leaf_end (last (leaves leafSet)))"
proof (cases rule: renderLeafSet_cases[of leafSet props])
  case bare
  from renderLeafSet_bare[OF bare, of lib b hasSelection lastLeafSet ii] assms
  show ?thesis by simp
next
  case (wrap k dec cmp)
  show ?thesis
  proof (cases "leaves leafSet = []")
    case True
    from renderLeafSet_throws[OF wrap True, of lib b hasSelection lastLeafSet ii] assms
    show ?thesis by simp
  next
    case False
    from renderLeafSet_decorated[OF wrap False, of lib b hasSelection lastLeafSet ii] assms
    show ?thesis using False by auto
  qed
qed

lemma renderLeafSet_returns:
  assumes "leaves leafSet \<noteq> []"
  shows "\<exists>r. renderLeafSet lib b props hasSelection lastLeafSet ii leafSet = Inr r"
proof (cases rule: renderLeafSet_cases[of leafSet props])
  case bare
  from renderLeafSet_bare[OF bare, of lib b hasSelection lastLeafSet ii]
  show ?thesis by blast
next
  case (wrap k dec cmp)
  from renderLeafSet_decorated[OF wrap assms, of lib b hasSelection lastLeafSet ii]
  show ?thesis by blast
qed

text \<open>
  Claim C9: in what \<^verbatim>\<open>_renderChildren\<close> returns, every rendered leaf's text is
  the block's text sliced from that leaf's start to its end; a leaf set is
  wrapped in a decorator component only when its decorator key is non-null,
  the decorator prop is non-null and the decorator yields a component for the
  key, and otherwise its bare leaves are returned; when it is wrapped, the
  decorated text is the block's text sliced from the first leaf's start to the
  last leaf's end. The method returns (it does not throw) when every leaf set
  has a leaf.
\<close>

theorem renderChildren_leaves_and_decorators:
  fixes lib :: "'c Library" and objs :: "'c Objects" and props :: Props
  defines "b \<equiv> blockAt objs (block props)"
  defines "t \<equiv> treeAt objs (tree props)"
  shows "((\<forall>ii<length t. leaves (t ! ii) \<noteq> []) \<longrightarrow>
            (\<exists>rendered. renderChildren lib objs props = Inr rendered)) \<and>
         (\<forall>rendered. renderChildren lib objs props = Inr rendered \<longrightarrow>
            length rendered = length t \<and>
            (\<forall>ii<length t.
               map leafText (renderedLeaves (rendered ! ii)) =
                 map (\<lambda>l. js_slice (text_field b) (leaf_start l) (leaf_end l)) (leaves (t ! ii)) \<and>
               ((\<exists>d. rendered ! ii = Decorated d) \<longleftrightarrow>
                  (\<exists>k dec cmp. decoratorKey (t ! ii) = Some k \<and> decorator props = Some dec \<and>
                     getComponentForKey dec k = Some cmp)) \<and>
               ((\<nexists>d. rendered ! ii = Decorated d) \<longrightarrow>
                  rendered ! ii = Leaves (renderedLeaves (rendered ! ii))) \<and>
               (\<forall>d. rendered ! ii = Decorated d \<longrightarrow>
                  children d = renderedLeaves (rendered ! ii) \<and>
                  leaves (t ! ii) \<noteq> [] \<and>
                  decoratedText d = js_slice (text_field b) (leaf_start (hd (leaves (t ! ii))))
                                      (leaf_end (last (leaves (t ! ii)))))))"
proof (intro conjI allI impI)
  let ?f = "\<lambda>(ii, leafSet). renderLeafSet lib b props
       (isBlockOnSelectionEdge (selection props) (key b)) (int (length t) - 1) ii leafSet"
  have rc: "renderChildren lib objs props = throwing_map ?f (enumerate 0 t)"
    by (simp add: renderChildren_def Let_def b_def t_def)
  {
    assume ne: "\<forall>ii<length t. leaves (t ! ii) \<noteq> []"
    have "\<exists>y. ?f x = Inr y" if "x \<in> set (enumerate 0 t)" for x
    proof -
      obtain ii ls where x: "x = (ii, ls)" by (cases x)
      then have "ii < length t" "ls = t ! ii"
        using that by (auto simp: in_set_enumerate_eq)
      then have "leaves ls \<noteq> []" using ne by simp
      then show ?thesis using x renderLeafSet_returns by auto
    qed
    then show "\<exists>rendered. renderChildren lib objs props = Inr rendered"
      unfolding rc by (rule throwing_map_total)
  }
  fix rendered
  assume r: "renderChildren lib objs props = Inr rendered"
  then have tm: "throwing_map ?f (enumerate 0 t) = Inr rendered" by (simp add: rc)
  show len: "length rendered = length t"
    using throwing_map_nth(1)[OF tm] by simp
  fix ii assume ii: "ii < length t"
  have at: "renderLeafSet lib b props (isBlockOnSelectionEdge (selection props) (key b))
        (int (length t) - 1) ii (t ! ii) = Inr (rendered ! ii)"
    using throwing_map_nth(2)[OF tm, of ii] ii by (simp add: nth_enumerate_eq)
  show "map leafText (renderedLeaves (rendered ! ii)) =
        map (\<lambda>l. js_slice (text_field b) (leaf_start l) (leaf_end l)) (leaves (t ! ii))"
    by (rule renderLeafSet_leaf_texts[OF at])
  show "(\<exists>d. rendered ! ii = Decorated d) \<longleftrightarrow>
        (\<exists>k dec cmp. decoratorKey (t ! ii) = Some k \<and> decorator props = Some dec \<and>
           getComponentForKey dec k = Some cmp)"
    by (rule renderLeafSet_decorated_iff[OF at])
  {
    assume "\<nexists>d. rendered ! ii = Decorated d"
    then show "rendered ! ii = Leaves (renderedLeaves (rendered ! ii))"
      by (cases "rendered ! ii") auto
  }
  fix d assume d: "rendered ! ii = Decorated d"
  show "children d = renderedLeaves (rendered ! ii)" by (simp add: d)
  show "leaves (t ! ii) \<noteq> []"
    using renderLeafSet_decoratedText[OF at[unfolded d]] by simp
  show "decoratedText d = js_slice (text_field b) (leaf_start (hd (leaves (t ! ii))))
                                      (leaf_end (last (leaves (t ! ii))))"
    using renderLeafSet_decoratedText[OF at[unfolded d]] by simp
qed

theorem renderChildren_leaves_and_decorators_witness:
  "\<exists>rendered d.
     renderChildren sample_library sample_objects (sample_props\<lparr>decorator := Some sample_decorator\<rparr>)
       = Inr rendered \<and>
     length rendered = 2 \<and>
     rendered ! 0 = Leaves (renderedLeaves (rendered ! 0)) \<and>
     map leafText (renderedLeaves (rendered ! 0)) = [[0x61]] \<and>
     rendered ! 1 = Decorated d \<and>
     map leafText (children d) = [[0x62, 0x63], [0x64]] \<and>
     decoratedText d = [0x62, 0x63, 0x64]"
proof -
  let ?props = "sample_props\<lparr>decorator := Some sample_decorator\<rparr>"
  note inst = renderChildren_leaves_and_decorators [of sample_objects ?props sample_library]
  have t: "treeAt sample_objects (tree ?props) = sample_tree"
    and b: "blockAt sample_objects (block ?props) = sample_block"
    by (simp_all add: sample_objects_def)
  have len: "length sample_tree = 2" by (simp add: sample_tree_def)
  have t0: "sample_tree ! 0 = \<lparr>set_start = 0, set_end = 1, decoratorKey = None,
       leaves = [\<lparr>leaf_start = 0, leaf_end = 1\<rparr>]\<rparr>"
    and t1: "sample_tree ! 1 = \<lparr>set_start = 1, set_end = 4, decoratorKey = Some [0x64],
       leaves = [\<lparr>leaf_start = 1, leaf_end = 3\<rparr>, \<lparr>leaf_start = 3, leaf_end = 4\<rparr>]\<rparr>"
    by (simp_all add: sample_tree_def)
  have ne: "\<forall>ii<length sample_tree. leaves (sample_tree ! ii) \<noteq> []"
    unfolding len using t0 t1 by (simp add: less_Suc_eq numeral_2_eq_2)
  from inst[THEN conjunct1, unfolded t b] ne
  have "\<exists>rendered. renderChildren sample_library sample_objects ?props = Inr rendered"
    by (rule mp)
  then obtain rendered where
    r: "renderChildren sample_library sample_objects ?props = Inr rendered" ..
  note i2 = inst[THEN conjunct2, unfolded t b, rule_format, OF r]
  note l = i2[THEN conjunct1]
  note a = i2[THEN conjunct2, rule_format]
  have tx: "text_field sample_block = [0x61, 0x62, 0x63, 0x64]" by (simp add: sample_block_def)
  have "0 < length sample_tree" by (simp add: len)
  note a0 = a[OF this]
  have "1 < length sample_tree" by (simp add: len)
  note a1 = a[OF this]
  note a0_text = a0[THEN conjunct1]
  note a0_iff = a0[THEN conjunct2, THEN conjunct1]
  note a0_bare = a0[THEN conjunct2, THEN conjunct2, THEN conjunct1]
  note a1_text = a1[THEN conjunct1]
  note a1_iff = a1[THEN conjunct2, THEN conjunct1]
  note a1_dec = a1[THEN conjunct2, THEN conjunct2, THEN conjunct2, rule_format]
  have no0: "\<nexists>d. rendered ! 0 = Decorated d"
    unfolding a0_iff by (simp add: t0)
  have bare0: "rendered ! 0 = Leaves (renderedLeaves (rendered ! 0))"
    using a0_bare no0 by (rule mp)
  have text0: "map leafText (renderedLeaves (rendered ! 0)) = [[0x61]]"
    unfolding a0_text by (simp add: t0 tx js_slice_def)
  have "\<exists>d. rendered ! 1 = Decorated d"
    unfolding a1_iff by (simp add: t1 t1[unfolded One_nat_def] sample_decorator_def)
  then obtain d where d: "rendered ! 1 = Decorated d" ..
  note dd = a1_dec[OF d]
  have ch: "children d = renderedLeaves (rendered ! 1)" by (rule dd[THEN conjunct1])
  have text1: "map leafText (children d) = [[0x62, 0x63], [0x64]]"
    unfolding ch a1_text by (simp add: t1 t1[unfolded One_nat_def] tx js_slice_def)
  have dtext: "decoratedText d = [0x62, 0x63, 0x64]"
    unfolding dd[THEN conjunct2, THEN conjunct2] by (simp add: t1 t1[unfolded One_nat_def] tx js_slice_def)
  have l2: "length rendered = 2" using l len by simp
  show ?thesis
    apply (rule exI[of _ rendered])
    apply (rule exI[of _ d])
    apply (intro conjI)
          apply (rule r)
         apply (rule l2)
        apply (rule bare0)
       apply (rule text0)
      apply (rule d)
     apply (rule text1)
    apply (rule dtext)
    done
qed

lemma measureLayout_bottoms:
  "blockBottom (measureLayout doc this props) =
     blockTop (measureLayout doc this props) + blockHeight (measureLayout doc this props)"
  "visBottom (measureLayout doc this props) =
     visTop (measureLayout doc this props) + visHeight (measureLayout doc this props)"
  by (simp_all add: measureLayout_def Let_def)

text \<open>
  Claim C10: \<^verbatim>\<open>componentDidMount\<close> scrolls nothing unless the selection has
  focus and the selection's end key is the block's key. When it passes that
  guard, it sets a new scroll top if and only if the block's top lies above
  the visible top, or a block at least as tall as the visible height lies
  entirely below the visible bottom, or a smaller block's bottom extends past
  the visible bottom. In the first two cases the new scroll top is the scroll
  position minus the buffer of 10 minus the distance from the block's top to
  the visible top; in the third it is the scroll position plus the buffer of
  10 minus the distance from the block's bottom to the visible bottom.
\<close>

theorem componentDidMount_scroll:
  fixes doc :: Document and objs :: "'c Objects" and this :: ref and props :: Props
  defines "l \<equiv> measureLayout doc this props"
  defines "isBigBlock \<equiv> blockHeight l \<ge> visHeight l"
  defines "guard \<equiv> getHasFocus (selection props) \<and>
                     getEndKey (selection props) = key (blockAt objs (block props))"
  defines "scroll \<equiv> (\<lambda>t. if isScrParentWindow l then WindowScrollTo (scroll_x (scrollPosition l)) t
                           else ScrollSetTop (scrollParent l) t)"
  shows "(\<not> guard \<longrightarrow> componentDidMount doc objs this props = None) \<and>
    (componentDidMount doc objs this props \<noteq> None \<longleftrightarrow>
       guard \<and> (blockTop l < visTop l \<or> (isBigBlock \<and> visBottom l < blockTop l) \<or>
                (\<not> isBigBlock \<and> visBottom l < blockBottom l))) \<and>
    (guard \<and> (blockTop l < visTop l \<or> (isBigBlock \<and> visBottom l < blockTop l)) \<longrightarrow>
       componentDidMount doc objs this props =
         Some (scroll (scroll_y (scrollPosition l) - 10 - (visTop l - blockTop l)))) \<and>
    (guard \<and> \<not> isBigBlock \<and> visBottom l < blockBottom l \<longrightarrow>
       componentDidMount doc objs this props =
         Some (scroll (scroll_y (scrollPosition l) + 10 - (visBottom l - blockBottom l))))"
proof -
  have bb: "blockBottom l = blockTop l + blockHeight l" and vb: "visBottom l = visTop l + visHeight l"
    unfolding l_def by (rule measureLayout_bottoms)+
  have none: "componentDidMount doc objs this props = None" if "\<not> guard"
    using that by (auto simp: componentDidMount_def guard_def Let_def)
  have run: "componentDidMount doc objs this props =
      (case correctScrollTop l of None \<Rightarrow> None | Some t \<Rightarrow> Some (scroll t))" if guard
    using that by (simp add: componentDidMount_def guard_def Let_def l_def scroll_def split: option.splits)
  have top: "correctScrollTop l = Some (scroll_y (scrollPosition l) - SCROLL_BUFFER - (visTop l - blockTop l))"
    if "blockTop l < visTop l \<or> (isBigBlock \<and> visBottom l < blockTop l)"
    using that by (auto simp: correctScrollTop_def isBigBlock_def Let_def)
  have bottom: "correctScrollTop l = Some (scroll_y (scrollPosition l) + SCROLL_BUFFER - (visBottom l - blockBottom l))"
    if "\<not> isBigBlock" "visBottom l < blockBottom l"
  proof -
    have "\<not> blockTop l < visTop l" using that bb vb by (simp add: isBigBlock_def)
    then show ?thesis using that by (simp add: correctScrollTop_def isBigBlock_def Let_def)
  qed
  have neither: "correctScrollTop l = None"
    if "\<not> (blockTop l < visTop l \<or> (isBigBlock \<and> visBottom l < blockTop l) \<or>
                (\<not> isBigBlock \<and> visBottom l < blockBottom l))"
    using that by (auto simp: correctScrollTop_def isBigBlock_def Let_def)
  have iff: "componentDidMount doc objs this props \<noteq> None \<longleftrightarrow>
       guard \<and> (blockTop l < visTop l \<or> (isBigBlock \<and> visBottom l < blockTop l) \<or>
                (\<not> isBigBlock \<and> visBottom l < blockBottom l))"
  proof (cases guard)
    case False
    then show ?thesis using none by simp
  next
    case True
    show ?thesis
    proof (cases "blockTop l < visTop l \<or> (isBigBlock \<and> visBottom l < blockTop l)")
      case a: True
      then show ?thesis using True run top by auto
    next
      case na: False
      show ?thesis
      proof (cases "\<not> isBigBlock \<and> visBottom l < blockBottom l")
        case True
        then show ?thesis using \<open>guard\<close> run bottom by auto
      next
        case False
        then show ?thesis using \<open>guard\<close> na run neither by auto
      qed
    qed
  qed
  show ?thesis
    using none iff run top bottom by (simp add: SCROLL_BUFFER_def)
qed


theorem componentDidMount_scroll_witness:
  "componentDidMount sample_document sample_objects 0 sample_props = Some (WindowScrollTo 0 380) \<and>
   componentDidMount sample_document sample_objects 0
     (sample_props\<lparr>selection := sample_selection\<lparr>getHasFocus := False\<rparr>\<rparr>) = None"
proof -
  have l: "measureLayout sample_document 0 sample_props =
      \<lparr>isScrParentWindow = True, scrollParent = 7,
       scrollPosition = \<lparr>scroll_x = 0, scroll_y = 50\<rparr>, blockHeight = 20, blockTop = 900,
       blockBottom = 920, visTop = 0, visHeight = 600, visBottom = 600\<rparr>"
    by (simp add: measureLayout_def sample_document_def sample_props_def Let_def)
  have g: "getHasFocus (selection sample_props) \<and>
      getEndKey (selection sample_props) = key (blockAt sample_objects (block sample_props))"
    by (simp add: sample_props_def sample_selection_def sample_objects_def sample_block_def)
  have ng: "\<not> (getHasFocus (selection (sample_props\<lparr>selection := sample_selection\<lparr>getHasFocus := False\<rparr>\<rparr>)) \<and>
      getEndKey (selection (sample_props\<lparr>selection := sample_selection\<lparr>getHasFocus := False\<rparr>\<rparr>)) =
        key (blockAt sample_objects (block (sample_props\<lparr>selection := sample_selection\<lparr>getHasFocus := False\<rparr>\<rparr>))))"
    by simp
  have 1: "componentDidMount sample_document sample_objects 0 sample_props =
      Some (WindowScrollTo 0 (50 + 10 - (600 - 920)))"
    using componentDidMount_scroll [where doc = sample_document and objs = sample_objects
      and this = 0 and props = sample_props] g
    unfolding l by simp
  have 2: "componentDidMount sample_document sample_objects 0
     (sample_props\<lparr>selection := sample_selection\<lparr>getHasFocus := False\<rparr>\<rparr>) = None"
    using componentDidMount_scroll [where doc = sample_document and objs = sample_objects
      and this = 0 and props = "sample_props\<lparr>selection := sample_selection\<lparr>getHasFocus := False\<rparr>\<rparr>"] ng
    by blast
  show ?thesis using 1 2 by simp
qed

end
